theory Spec2Isabelle
  imports Main
begin

section \<open>JavaScript strings and numbers\<close>

text \<open>
  The dashboard script \<^verbatim>\<open>static/app.js\<close> works on JavaScript strings. A string is modelled
  as a \<^typ>\<open>string\<close>: the characters below 128 are the ASCII characters, the others
  stand for the bytes of the UTF-8 form of non-ASCII text. Case mapping is the ASCII one
  (non-ASCII text is left as it is). An absent, \<^verbatim>\<open>null\<close> or empty field is falsy; a field
  of a record is a \<^typ>\<open>string option\<close>, \<^const>\<open>None\<close> for an absent or \<^verbatim>\<open>null\<close> one.
\<close>

definition str_or_empty :: "string option \<Rightarrow> string" where
  \<comment> \<open>\<^verbatim>\<open>String(x || "")\<close>\<close>
  "str_or_empty x = (case x of None \<Rightarrow> [] | Some s \<Rightarrow> s)"

definition is_digit :: "char \<Rightarrow> bool" where
  \<comment> \<open>\<^verbatim>\<open>\d\<close>, the complement of \<^verbatim>\<open>\D\<close>\<close>
  "is_digit c \<longleftrightarrow> c \<in> set ''0123456789''"

definition digit_val :: "char \<Rightarrow> int" where
  "digit_val c = of_char c - 48"

definition digit_char :: "int \<Rightarrow> char" where
  "digit_char d = ''0123456789'' ! nat d"

function decimal :: "int \<Rightarrow> string" where
  "decimal n = (if n < 10 then [digit_char n] else decimal (n div 10) @ [digit_char (n mod 10)])"
  by pat_completeness auto
termination
  by (relation "measure nat") auto

declare decimal.simps [simp del]

definition parse_decimal :: "string \<Rightarrow> int" where
  \<comment> \<open>the mathematical integer a string of decimal digits denotes\<close>
  "parse_decimal ds = foldl (\<lambda>n c. 10 * n + digit_val c) 0 ds"

subsection \<open>String methods\<close>

definition ascii_space :: "char \<Rightarrow> bool" where
  \<comment> \<open>tab, line feed, vertical tab, form feed, carriage return, space\<close>
  "ascii_space c \<longleftrightarrow> c \<in> set [CHR 0x09, CHR 0x0A, CHR 0x0B, CHR 0x0C, CHR 0x0D, CHR 0x20]"

definition unicode_spaces :: "string list" where
  \<comment> \<open>the UTF-8 forms of the other white space and line terminators of ECMAScript:
      U+00A0, U+1680, U+2000 to U+200A, U+2028, U+2029, U+202F, U+205F, U+3000, U+FEFF\<close>
  "unicode_spaces =
     [[CHR 0xC2, CHR 0xA0], [CHR 0xE1, CHR 0x9A, CHR 0x80],
      [CHR 0xE2, CHR 0x80, CHR 0x80], [CHR 0xE2, CHR 0x80, CHR 0x81],
      [CHR 0xE2, CHR 0x80, CHR 0x82], [CHR 0xE2, CHR 0x80, CHR 0x83],
      [CHR 0xE2, CHR 0x80, CHR 0x84], [CHR 0xE2, CHR 0x80, CHR 0x85],
      [CHR 0xE2, CHR 0x80, CHR 0x86], [CHR 0xE2, CHR 0x80, CHR 0x87],
      [CHR 0xE2, CHR 0x80, CHR 0x88], [CHR 0xE2, CHR 0x80, CHR 0x89],
      [CHR 0xE2, CHR 0x80, CHR 0x8A], [CHR 0xE2, CHR 0x80, CHR 0xA8],
      [CHR 0xE2, CHR 0x80, CHR 0xA9], [CHR 0xE2, CHR 0x80, CHR 0xAF],
      [CHR 0xE2, CHR 0x81, CHR 0x9F], [CHR 0xE3, CHR 0x80, CHR 0x80],
      [CHR 0xEF, CHR 0xBB, CHR 0xBF]]"

definition startsWith :: "string \<Rightarrow> string \<Rightarrow> bool" where
  \<comment> \<open>\<^verbatim>\<open>s.startsWith(t)\<close>\<close>
  "startsWith s t \<longleftrightarrow> take (length t) s = t"

definition endsWith :: "string \<Rightarrow> string \<Rightarrow> bool" where
  "endsWith s t \<longleftrightarrow> startsWith (rev s) (rev t)"

fun strip_spaces :: "string list \<Rightarrow> string \<Rightarrow> string" where
  \<comment> \<open>drops leading white space; \<open>ws\<close> lists the multi-byte forms\<close>
  "strip_spaces ws [] = []"
| "strip_spaces ws (c # cs) =
     (if ascii_space c then strip_spaces ws cs
      else case filter (startsWith (c # cs)) ws of
             [] \<Rightarrow> c # cs
           | w # _ \<Rightarrow> strip_spaces ws (drop (length w - 1) cs))"

definition trim :: "string \<Rightarrow> string" where
  \<comment> \<open>\<^verbatim>\<open>s.trim()\<close>: white space off both ends\<close>
  "trim s = rev (strip_spaces (map rev unicode_spaces) (rev (strip_spaces unicode_spaces s)))"

definition to_lower :: "char \<Rightarrow> char" where
  "to_lower c = (case map_of (zip ''ABCDEFGHIJKLMNOPQRSTUVWXYZ'' ''abcdefghijklmnopqrstuvwxyz'') c of
                   None \<Rightarrow> c | Some d \<Rightarrow> d)"

definition to_upper :: "char \<Rightarrow> char" where
  "to_upper c = (case map_of (zip ''abcdefghijklmnopqrstuvwxyz'' ''ABCDEFGHIJKLMNOPQRSTUVWXYZ'') c of
                   None \<Rightarrow> c | Some d \<Rightarrow> d)"

definition toLowerCase :: "string \<Rightarrow> string" where
  "toLowerCase s = map to_lower s"

definition toUpperCase :: "string \<Rightarrow> string" where
  "toUpperCase s = map to_upper s"

fun str_includes :: "string \<Rightarrow> string \<Rightarrow> bool" where
  \<comment> \<open>\<^verbatim>\<open>s.includes(t)\<close>: \<open>t\<close> occurs in \<open>s\<close>\<close>
  "str_includes [] t = (t = [])"
| "str_includes (c # cs) t = (startsWith (c # cs) t \<or> str_includes cs t)"

fun split_on :: "(char \<Rightarrow> bool) \<Rightarrow> string \<Rightarrow> string list" where
  \<comment> \<open>\<^verbatim>\<open>s.split(sep)\<close> for one-character separators: the pieces between them, never none\<close>
  "split_on p [] = [[]]"
| "split_on p (c # cs) =
     (if p c then [] # split_on p cs
      else case split_on p cs of [] \<Rightarrow> [[c]] | s # ss \<Rightarrow> (c # s) # ss)"

definition last_segment :: "string \<Rightarrow> string" where
  \<comment> \<open>\<^verbatim>\<open>path.split("/").filter(Boolean).pop() || ""\<close>\<close>
  "last_segment path =
     (case rev (filter (\<lambda>s. s \<noteq> []) (split_on (\<lambda>c. c = CHR ''/'') path)) of
        [] \<Rightarrow> [] | s # _ \<Rightarrow> s)"


subsection \<open>Numbers: \<^verbatim>\<open>Number.parseInt\<close> of a digit string and \<^verbatim>\<open>String\<close> of the result\<close>

text \<open>
  \<^verbatim>\<open>Number.parseInt(digits, 10)\<close> returns the Number (an IEEE 754 double) nearest to the
  integer the digits denote, ties to the even significand, and \<^verbatim>\<open>Infinity\<close> from
  \<open>2^1024\<close> on. Only non-negative integers arise here, so a Number is modelled by the
  integer it is, or by \<open>PosInfinity\<close>: every integer below \<open>2^53\<close> is a double, and a
  larger one is a double when it is a multiple of the power of two its 53 leading bits
  leave over.
\<close>

datatype jsnum = Finite int | PosInfinity

function bits :: "int \<Rightarrow> nat" where
  "bits n = (if n \<le> 0 then 0 else Suc (bits (n div 2)))"
  by pat_completeness auto
termination
  by (relation "measure nat") auto

declare bits.simps [simp del]

definition Number_of_int :: "int \<Rightarrow> jsnum" where
  "Number_of_int n =
     (if n < 2 ^ 53 then Finite n
      else let e = bits n - 53;
               q = n div 2 ^ e;
               r = n mod 2 ^ e;
               h = 2 ^ (e - 1);
               q' = (if h < r \<or> (r = h \<and> odd q) then q + 1 else q);
               v = q' * 2 ^ e
           in if 2 ^ 1024 \<le> v then PosInfinity else Finite v)"

definition Number_parseInt :: "string \<Rightarrow> jsnum" where
  \<comment> \<open>on a non-empty string of decimal digits, radix 10\<close>
  "Number_parseInt digits = Number_of_int (parse_decimal digits)"

text \<open>
  \<^verbatim>\<open>String(x)\<close> of a Number \<open>x\<close> writes the shortest decimal \<open>s \<times> 10^(n-k)\<close>, \<open>s\<close> of \<open>k\<close>
  digits, that reads back as \<open>x\<close>, the nearest to \<open>x\<close> among the shortest (an even \<open>s\<close>
  on a tie): all its digits when \<open>n \<le> 21\<close>, the exponent form beyond. For an integer \<open>x\<close>
  the candidates are the multiples of powers of ten next to \<open>x\<close>.
\<close>

definition sig_digits :: "int \<Rightarrow> string" where
  \<comment> \<open>the digits of \<open>v\<close> without its trailing zeros\<close>
  "sig_digits v = rev (dropWhile (\<lambda>c. c = CHR ''0'') (rev (decimal v)))"

definition repr_candidates :: "int \<Rightarrow> int list" where
  "repr_candidates x =
     concat (map (\<lambda>e. filter (\<lambda>v. v \<noteq> 0 \<and> Number_of_int v = Finite x)
                         [x div 10 ^ e * 10 ^ e, (x div 10 ^ e + 1) * 10 ^ e])
                 [0 ..< length (decimal x) + 1])"

definition distance :: "int \<Rightarrow> int \<Rightarrow> int" where
  "distance a b = \<bar>a - b\<bar>"

definition preferred :: "int \<Rightarrow> int \<Rightarrow> int \<Rightarrow> bool" where
  \<comment> \<open>candidate \<open>v\<close> is a better decimal for \<open>x\<close> than \<open>b\<close>\<close>
  "preferred x v b \<longleftrightarrow>
     length (sig_digits v) < length (sig_digits b) \<or>
     (length (sig_digits v) = length (sig_digits b) \<and>
      (distance v x < distance b x \<or>
       (distance v x = distance b x \<and>
        even (parse_decimal (sig_digits v)) \<and> odd (parse_decimal (sig_digits b)))))"

definition shortest_repr :: "int \<Rightarrow> int" where
  "shortest_repr x = foldl (\<lambda>b v. if preferred x v b then v else b) x (repr_candidates x)"

fun Number_toString :: "jsnum \<Rightarrow> string" where
  "Number_toString PosInfinity = ''Infinity''"
| "Number_toString (Finite x) =
     (if x = 0 then ''0''
      else let v = shortest_repr x;
               s = sig_digits v;
               k = length s;
               n = length (decimal v)
           in if n \<le> 21 then s @ replicate (n - k) (CHR ''0'')
              else if k = 1 then s @ ''e+'' @ decimal (int n - 1)
              else take 1 s @ ''.'' @ drop 1 s @ ''e+'' @ decimal (int n - 1))"

section \<open>Identifier normalisation\<close>

definition normalizeCik :: "string option \<Rightarrow> string" where
  "normalizeCik cik =
     (let digits = filter is_digit (str_or_empty cik)
      in if digits = [] then [] else Number_toString (Number_parseInt digits))"

definition normalizeAccessionDigits :: "string option \<Rightarrow> string" where
  "normalizeAccessionDigits accession = filter is_digit (str_or_empty accession)"

definition buildEdgarIndexUrl :: "string option \<Rightarrow> string option \<Rightarrow> string" where
  "buildEdgarIndexUrl cik accession =
     (let cleanCik = normalizeCik cik;
          rawAccession = trim (str_or_empty accession);
          cleanAccession = normalizeAccessionDigits accession
      in if cleanCik = [] \<or> cleanAccession = [] \<or> rawAccession = [] then []
         else ''https://www.sec.gov/Archives/edgar/data/'' @ cleanCik @ ''/'' @ cleanAccession @
              ''/'' @ rawAccession @ ''-index.html'')"



section \<open>The platform's \<^verbatim>\<open>URL\<close> class\<close>

text \<open>
  \<^verbatim>\<open>new URL(value)\<close> runs the basic URL parser of the URL Standard with no base URL
  and throws a \<^verbatim>\<open>TypeError\<close> when it fails; the script reads \<^verbatim>\<open>hostname\<close>,
  \<^verbatim>\<open>pathname\<close>, \<^verbatim>\<open>searchParams.get("doc")\<close> and \<^verbatim>\<open>toString()\<close> of the result. The
  parser is modelled state by state, each state as the function of the input it consumes.
  Validation errors (which never change the result) are left out. Two steps of the host
  parser are narrower than the standard: the domain-to-ASCII step is ASCII lower-casing,
  so a host with non-ASCII text is reported as a failure and an \<^verbatim>\<open>xn--\<close> label is taken
  as it is; and a bracketed IPv6 literal is reported as a failure (its hostname keeps the
  brackets, so the script rejects it either way).
\<close>

datatype url_path = Opaque string | Segments "string list"

record URL =
  url_scheme :: string
  url_username :: string
  url_password :: string
  url_host :: "string option"
  url_port :: "int option"
  url_path :: url_path
  url_query :: "string option"
  url_fragment :: "string option"

definition code :: "char \<Rightarrow> int" where
  "code c = of_char c"

definition byte_char :: "int \<Rightarrow> char" where
  "byte_char n = Char (odd n) (odd (n div 2)) (odd (n div 4)) (odd (n div 8))
                      (odd (n div 16)) (odd (n div 32)) (odd (n div 64)) (odd (n div 128))"

definition is_alpha :: "char \<Rightarrow> bool" where
  "is_alpha c \<longleftrightarrow> c \<in> set ''abcdefghijklmnopqrstuvwxyzABCDEFGHIJKLMNOPQRSTUVWXYZ''"

definition is_hex :: "char \<Rightarrow> bool" where
  "is_hex c \<longleftrightarrow> c \<in> set ''0123456789abcdefABCDEF''"

definition hex_val :: "char \<Rightarrow> int" where
  "hex_val c = (if is_digit c then code c - 48
                else if c \<in> set ''abcdef'' then code c - 87 else code c - 55)"

definition hex_char :: "int \<Rightarrow> char" where
  "hex_char d = ''0123456789ABCDEF'' ! nat d"

subsection \<open>Percent-encode sets\<close>

definition c0_control_set :: "char \<Rightarrow> bool" where
  "c0_control_set c \<longleftrightarrow> code c < 32 \<or> 126 < code c"

definition fragment_set :: "char \<Rightarrow> bool" where
  "fragment_set c \<longleftrightarrow> c0_control_set c \<or> c \<in> set [CHR 0x20, CHR 0x22, CHR ''<'', CHR ''>'', CHR 0x60]"

definition query_set :: "char \<Rightarrow> bool" where
  "query_set c \<longleftrightarrow> c0_control_set c \<or> c \<in> set [CHR 0x20, CHR 0x22, CHR ''#'', CHR ''<'', CHR ''>'']"

definition special_query_set :: "char \<Rightarrow> bool" where
  "special_query_set c \<longleftrightarrow> query_set c \<or> c = CHR 0x27"

definition path_set :: "char \<Rightarrow> bool" where
  "path_set c \<longleftrightarrow> query_set c \<or> c \<in> set [CHR ''?'', CHR ''^'', CHR 0x60, CHR ''{'', CHR ''}'']"

definition userinfo_set :: "char \<Rightarrow> bool" where
  "userinfo_set c \<longleftrightarrow>
     path_set c \<or> c \<in> set [CHR ''/'', CHR '':'', CHR '';'', CHR ''='', CHR ''@'', CHR ''['', CHR 0x5C, CHR '']'', CHR ''|'']"

definition percent_encode :: "(char \<Rightarrow> bool) \<Rightarrow> string \<Rightarrow> string" where
  \<comment> \<open>UTF-8 percent-encode: every byte of the set becomes \<^verbatim>\<open>%XX\<close>\<close>
  "percent_encode encode_set s =
     concat (map (\<lambda>c. if encode_set c then [CHR ''%'', hex_char (code c div 16), hex_char (code c mod 16)]
                        else [c]) s)"

fun percent_decode :: "string \<Rightarrow> string" where
  "percent_decode [] = []"
| "percent_decode (c # cs) =
     (if c = CHR ''%'' \<and> 2 \<le> length cs \<and> is_hex (cs ! 0) \<and> is_hex (cs ! 1)
      then byte_char (16 * hex_val (cs ! 0) + hex_val (cs ! 1)) # percent_decode (drop 2 cs)
      else c # percent_decode cs)"

subsection \<open>Schemes\<close>

definition is_special :: "string \<Rightarrow> bool" where
  "is_special scheme \<longleftrightarrow> scheme \<in> set [''ftp'', ''file'', ''http'', ''https'', ''ws'', ''wss'']"

definition default_port :: "string \<Rightarrow> int option" where
  "default_port scheme =
     map_of [(''ftp'', 21), (''http'', 80), (''https'', 443), (''ws'', 80), (''wss'', 443)] scheme"

definition is_scheme_char :: "char \<Rightarrow> bool" where
  "is_scheme_char c \<longleftrightarrow> is_alpha c \<or> is_digit c \<or> c \<in> set ''+-.''"

definition split_first :: "char \<Rightarrow> string \<Rightarrow> string \<times> string option" where
  \<comment> \<open>the text before the first \<open>d\<close>, and the text after it when there is one\<close>
  "split_first d s =
     (takeWhile (\<lambda>c. c \<noteq> d) s,
      case dropWhile (\<lambda>c. c \<noteq> d) s of [] \<Rightarrow> None | _ # after \<Rightarrow> Some after)"

subsection \<open>Hosts\<close>

definition forbidden_host :: "char \<Rightarrow> bool" where
  "forbidden_host c \<longleftrightarrow>
     c \<in> set [CHR 0x00, CHR 0x09, CHR 0x0A, CHR 0x0D, CHR 0x20, CHR ''#'', CHR ''/'', CHR '':'',
               CHR ''<'', CHR ''>'', CHR ''?'', CHR ''@'', CHR ''['', CHR 0x5C, CHR '']'', CHR ''^'',
               CHR ''|'']"

definition forbidden_domain :: "char \<Rightarrow> bool" where
  "forbidden_domain c \<longleftrightarrow> forbidden_host c \<or> code c < 32 \<or> c = CHR ''%'' \<or> c = CHR 0x7F"

definition ipv4_number :: "string \<Rightarrow> int option" where
  \<comment> \<open>the IPv4 number parser: decimal, \<^verbatim>\<open>0x\<close> hexadecimal or \<^verbatim>\<open>0\<close> octal\<close>
  "ipv4_number s =
     (if s = [] then None
      else if 2 \<le> length s \<and> take 2 (toLowerCase s) = ''0x''
      then (if list_all is_hex (drop 2 s)
            then Some (foldl (\<lambda>n c. 16 * n + hex_val c) 0 (drop 2 s)) else None)
      else if 2 \<le> length s \<and> hd s = CHR ''0''
      then (if list_all (\<lambda>c. c \<in> set ''01234567'') (tl s)
            then Some (foldl (\<lambda>n c. 8 * n + digit_val c) 0 (tl s)) else None)
      else if list_all is_digit s then Some (parse_decimal s) else None)"

definition ipv4_parts :: "string \<Rightarrow> string list" where
  "ipv4_parts s =
     (let parts = split_on (\<lambda>c. c = CHR ''.'') s
      in if last parts = [] \<and> 1 < length parts then butlast parts else parts)"

definition ends_in_number :: "string \<Rightarrow> bool" where
  "ends_in_number s =
     (let parts = split_on (\<lambda>c. c = CHR ''.'') s
      in if last parts = [] \<and> length parts = 1 then False
         else let l = last (if last parts = [] then butlast parts else parts)
              in (l \<noteq> [] \<and> list_all is_digit l) \<or> ipv4_number l \<noteq> None)"

definition ipv4_parse :: "string \<Rightarrow> string option" where
  "ipv4_parse s =
     (let parts = ipv4_parts s; numbers = map ipv4_number parts
      in if 4 < length parts \<or> None \<in> set numbers then None
         else let ns = map the numbers
              in if list_ex (\<lambda>n. 255 < n) (butlast ns) \<or> 256 ^ (5 - length ns) \<le> last ns then None
                 else let v = last ns + sum_list (map (\<lambda>(n, i). n * 256 ^ (3 - i))
                                                      (zip (butlast ns) [0 ..< length ns - 1]))
                      in Some (decimal (v div 256 ^ 3) @ ''.'' @ decimal (v div 256 ^ 2 mod 256) @ ''.'' @
                               decimal (v div 256 mod 256) @ ''.'' @ decimal (v mod 256)))"

definition host_parse :: "bool \<Rightarrow> string \<Rightarrow> string option" where
  \<comment> \<open>the host parser; \<open>opaque\<close> for a URL that is not special\<close>
  "host_parse opaque input =
     (if list_ex (\<lambda>c. c = CHR ''['' \<or> c = CHR '']'') input then None
      else if opaque
      then (if list_ex forbidden_host input then None else Some (percent_encode c0_control_set input))
      else let domain = percent_decode input
           in if list_ex (\<lambda>c. 127 < code c) domain then None
              else let asciiDomain = toLowerCase domain
                   in if list_ex forbidden_domain asciiDomain then None
                      else if ends_in_number asciiDomain then ipv4_parse asciiDomain
                      else Some asciiDomain)"

subsection \<open>Authority\<close>

definition parse_authority ::
  "string \<Rightarrow> string \<Rightarrow> (string \<times> string \<times> string option \<times> int option) option" where
  \<comment> \<open>authority, host and port states: credentials end at the last \<^verbatim>\<open>@\<close>, the port
      starts at the first \<^verbatim>\<open>:\<close> after it\<close>
  "parse_authority scheme auth =
     (let atSignSeen = CHR ''@'' \<in> set auth;
          hostport = rev (takeWhile (\<lambda>c. c \<noteq> CHR ''@'') (rev auth));
          (user, pass) = (if atSignSeen
                          then split_first (CHR '':'') (rev (drop 1 (dropWhile (\<lambda>c. c \<noteq> CHR ''@'') (rev auth))))
                          else ([], None));
          username = percent_encode userinfo_set user;
          password = percent_encode userinfo_set (case pass of None \<Rightarrow> [] | Some p \<Rightarrow> p)
      in if atSignSeen \<and> hostport = [] then None
         else case split_first (CHR '':'') hostport of
           (buffer, None) \<Rightarrow>
             (if is_special scheme \<and> buffer = [] then None
              else case host_parse (\<not> is_special scheme) buffer of
                     None \<Rightarrow> None
                   | Some host \<Rightarrow> Some (username, password, Some host, None))
         | (buffer, Some digits) \<Rightarrow>
             (if buffer = [] then None
              else case host_parse (\<not> is_special scheme) buffer of
                     None \<Rightarrow> None
                   | Some host \<Rightarrow>
                       if \<not> list_all is_digit digits then None
                       else if digits = [] then Some (username, password, Some host, None)
                       else if 65535 < parse_decimal digits then None
                       else Some (username, password, Some host,
                                  if default_port scheme = Some (parse_decimal digits) then None
                                  else Some (parse_decimal digits))))"

subsection \<open>Paths\<close>

definition single_dot :: "string \<Rightarrow> bool" where
  "single_dot b \<longleftrightarrow> toLowerCase b \<in> set [''.'', ''%2e'']"

definition double_dot :: "string \<Rightarrow> bool" where
  "double_dot b \<longleftrightarrow> toLowerCase b \<in> set [''..'', ''.%2e'', ''%2e.'', ''%2e%2e'']"

definition windows_drive_letter :: "string \<Rightarrow> bool" where
  "windows_drive_letter b \<longleftrightarrow>
     (case b of [a, d] \<Rightarrow> is_alpha a \<and> (d = CHR '':'' \<or> d = CHR ''|'') | _ \<Rightarrow> False)"

definition shorten :: "string \<Rightarrow> string list \<Rightarrow> string list" where
  "shorten scheme path =
     (if scheme = ''file'' \<and> length path = 1 \<and> windows_drive_letter (hd path) \<and> hd path ! 1 = CHR '':''
      then path else butlast path)"

fun path_state :: "string \<Rightarrow> string list \<Rightarrow> string list \<Rightarrow> string list" where
  \<comment> \<open>the path state, one buffer at a time: \<open>path\<close> so far, then the buffers that the
      slashes delimit, the last one ended by the end of the path\<close>
  "path_state scheme path [] = path"
| "path_state scheme path (b # bs) =
     (let buffer = percent_encode path_set b
      in path_state scheme
           (if double_dot buffer then (if bs = [] then shorten scheme path @ [[]] else shorten scheme path)
            else if single_dot buffer then (if bs = [] then path @ [[]] else path)
            else if scheme = ''file'' \<and> path = [] \<and> windows_drive_letter buffer
                 then path @ [[hd buffer, CHR '':'']]
            else path @ [buffer])
           bs)"

definition is_slash :: "string \<Rightarrow> char \<Rightarrow> bool" where
  \<comment> \<open>a path delimiter: \<^verbatim>\<open>/\<close>, and \<^verbatim>\<open>\\<close> in a special URL\<close>
  "is_slash scheme c \<longleftrightarrow> c = CHR ''/'' \<or> (is_special scheme \<and> c = CHR 0x5C)"

definition parse_path :: "string \<Rightarrow> string \<Rightarrow> url_path" where
  \<comment> \<open>the path state entered at the first character of \<open>s\<close>\<close>
  "parse_path scheme s = Segments (path_state scheme [] (split_on (is_slash scheme) s))"

definition path_start :: "string \<Rightarrow> string \<Rightarrow> url_path" where
  \<comment> \<open>the path start state: a special URL always enters the path state; another one
      only when something is left\<close>
  "path_start scheme s =
     (case s of
        [] \<Rightarrow> (if is_special scheme then parse_path scheme [] else Segments [])
      | c # cs \<Rightarrow> if is_slash scheme c then parse_path scheme cs else parse_path scheme (c # cs))"

subsection \<open>The parser\<close>

definition strip_c0_space :: "string \<Rightarrow> string" where
  "strip_c0_space s = rev (dropWhile (\<lambda>c. code c \<le> 32) (rev (dropWhile (\<lambda>c. code c \<le> 32) s)))"

definition parse_hierarchy ::
  "string \<Rightarrow> string \<Rightarrow> (string \<times> string \<times> string option \<times> int option \<times> url_path) option" where
  \<comment> \<open>what follows \<^verbatim>\<open>scheme:\<close> up to the query or fragment\<close>
  "parse_hierarchy scheme body =
     (if scheme = ''file''
      then (case body of
              c # d # rest \<Rightarrow>
                if is_slash scheme c \<and> is_slash scheme d
                then (let buffer = takeWhile (\<lambda>c. \<not> is_slash scheme c) rest;
                          after = dropWhile (\<lambda>c. \<not> is_slash scheme c) rest
                      in if windows_drive_letter buffer
                         then Some ([], [], Some [], None, parse_path scheme rest)
                         else if buffer = []
                         then Some ([], [], Some [], None, path_start scheme after)
                         else case host_parse False buffer of
                                None \<Rightarrow> None
                              | Some host \<Rightarrow>
                                  Some ([], [], Some (if host = ''localhost'' then [] else host), None,
                                        path_start scheme after))
                else if is_slash scheme c then Some ([], [], Some [], None, parse_path scheme (d # rest))
                else Some ([], [], Some [], None, parse_path scheme body)
            | [c] \<Rightarrow> Some ([], [], Some [], None, parse_path scheme (if is_slash scheme c then [] else [c]))
            | [] \<Rightarrow> Some ([], [], Some [], None, parse_path scheme []))
      else if is_special scheme
      then (let rest = dropWhile (is_slash scheme) body;
                auth = takeWhile (\<lambda>c. \<not> is_slash scheme c) rest;
                after = dropWhile (\<lambda>c. \<not> is_slash scheme c) rest
            in case parse_authority scheme auth of
                 None \<Rightarrow> None
               | Some (u, p, h, n) \<Rightarrow> Some (u, p, h, n, path_start scheme after))
      else (case body of
              c # rest \<Rightarrow>
                if c = CHR ''/''
                then (case rest of
                        d # rest' \<Rightarrow>
                          if d = CHR ''/''
                          then (let auth = takeWhile (\<lambda>c. c \<noteq> CHR ''/'') rest';
                                    after = dropWhile (\<lambda>c. c \<noteq> CHR ''/'') rest'
                                in case parse_authority scheme auth of
                                     None \<Rightarrow> None
                                   | Some (u, p, h, n) \<Rightarrow> Some (u, p, h, n, path_start scheme after))
                          else Some ([], [], None, None, parse_path scheme rest)
                      | [] \<Rightarrow> Some ([], [], None, None, parse_path scheme []))
                else Some ([], [], None, None, Opaque (percent_encode c0_control_set body))
            | [] \<Rightarrow> Some ([], [], None, None, Opaque [])))"

definition preprocess :: "string \<Rightarrow> string" where
  \<comment> \<open>leading and trailing C0 controls and spaces go, then every tab and newline\<close>
  "preprocess input = filter (\<lambda>c. c \<notin> set [CHR 0x09, CHR 0x0A, CHR 0x0D]) (strip_c0_space input)"

definition scheme_state :: "string \<Rightarrow> (string \<times> string) option" where
  \<comment> \<open>scheme start state and scheme state: the scheme and what follows its colon; with
      no base URL, an input without a scheme is a failure\<close>
  "scheme_state s =
     (case (s, dropWhile is_scheme_char s) of
        (c # _, d # remaining) \<Rightarrow>
          if is_alpha c \<and> d = CHR '':'' then Some (toLowerCase (takeWhile is_scheme_char s), remaining)
          else None
      | _ \<Rightarrow> None)"

definition new_URL :: "string \<Rightarrow> URL option" where
  \<comment> \<open>\<^verbatim>\<open>new URL(input)\<close>; \<open>None\<close> when the constructor throws\<close>
  "new_URL input =
     (case scheme_state (preprocess input) of
        None \<Rightarrow> None
      | Some (scheme, remaining) \<Rightarrow>
          let (front, fragment) = split_first (CHR ''#'') remaining;
              (body, query) = split_first (CHR ''?'') front
          in (case parse_hierarchy scheme body of
                None \<Rightarrow> None
              | Some (u, p, h, n, path) \<Rightarrow>
                  Some \<lparr>url_scheme = scheme, url_username = u, url_password = p,
                        url_host = h, url_port = n, url_path = path,
                        url_query = map_option (percent_encode (if is_special scheme then special_query_set
                                                                else query_set)) query,
                        url_fragment = map_option (percent_encode fragment_set) fragment\<rparr>))"

subsection \<open>Getters\<close>

definition hostname :: "URL \<Rightarrow> string" where
  "hostname u = (case url_host u of None \<Rightarrow> [] | Some h \<Rightarrow> h)"

definition pathname :: "URL \<Rightarrow> string" where
  "pathname u =
     (case url_path u of Opaque p \<Rightarrow> p | Segments segs \<Rightarrow> concat (map (\<lambda>s. CHR ''/'' # s) segs))"

definition href :: "URL \<Rightarrow> string" where
  \<comment> \<open>the URL serializer, which \<^verbatim>\<open>toString()\<close> returns\<close>
  "href u =
     url_scheme u @ '':'' @
     (case url_host u of
        Some h \<Rightarrow>
          ''//'' @
          (if url_username u \<noteq> [] \<or> url_password u \<noteq> []
           then url_username u @ (if url_password u \<noteq> [] then '':'' @ url_password u else []) @ ''@''
           else []) @
          h @ (case url_port u of None \<Rightarrow> [] | Some n \<Rightarrow> '':'' @ decimal n)
      | None \<Rightarrow>
          (case url_path u of
             Segments (s # t # _) \<Rightarrow> if s = [] then ''/.'' else []
           | _ \<Rightarrow> [])) @
     pathname u @
     (case url_query u of None \<Rightarrow> [] | Some q \<Rightarrow> ''?'' @ q) @
     (case url_fragment u of None \<Rightarrow> [] | Some f \<Rightarrow> ''#'' @ f)"

definition form_decode :: "string \<Rightarrow> string" where
  "form_decode s = percent_decode (map (\<lambda>c. if c = CHR ''+'' then CHR 0x20 else c) s)"

definition searchParams :: "URL \<Rightarrow> (string \<times> string) list" where
  \<comment> \<open>the \<^verbatim>\<open>application/x-www-form-urlencoded\<close> parser on the query\<close>
  "searchParams u =
     (case url_query u of
        None \<Rightarrow> []
      | Some q \<Rightarrow>
          map (\<lambda>s. case split_first (CHR ''='') s of
                      (name, v) \<Rightarrow> (form_decode name, form_decode (case v of None \<Rightarrow> [] | Some w \<Rightarrow> w)))
              (filter (\<lambda>s. s \<noteq> []) (split_on (\<lambda>c. c = CHR ''&'') q)))"

definition searchParams_get :: "URL \<Rightarrow> string \<Rightarrow> string option" where
  "searchParams_get u name = map_of (searchParams u) name"


datatype exn = TypeError

definition URL_new :: "string \<Rightarrow> exn + URL" where
  \<comment> \<open>the constructor call: a parse failure is thrown as a \<^verbatim>\<open>TypeError\<close>\<close>
  "URL_new input = (case new_URL input of None \<Rightarrow> Inl TypeError | Some u \<Rightarrow> Inr u)"

section \<open>Link resolution\<close>

record alert =
  company_name :: "string option"
  cik :: "string option"
  accession_number :: "string option"
  form_type :: "string option"
  synopsis :: "string option"
  primary_document_url :: "string option"
  sec_filing_url :: "string option"
  sec_index_url :: "string option"
  created_at :: "string option"
  updated :: "string option"
  error :: "string option"
  is_crypto :: bool
  email_sent :: bool
  matched_keywords :: "string list"

definition sec_gov_test :: "string \<Rightarrow> bool" where
  \<comment> \<open>\<^verbatim>\<open>/sec\.gov$/i.test(h)\<close>: \<open>h\<close> ends with \<^verbatim>\<open>sec.gov\<close>, in any letter case\<close>
  "sec_gov_test h \<longleftrightarrow> endsWith (toLowerCase h) ''sec.gov''"

definition or_else :: "string \<Rightarrow> string \<Rightarrow> string" where
  \<comment> \<open>\<^verbatim>\<open>a || b\<close> on strings: the empty string is falsy\<close>
  "or_else a b = (if a = [] then b else a)"

definition canonicalizeSecUrl_try :: "string \<Rightarrow> alert \<Rightarrow> exn + string" where
  \<comment> \<open>the body of the \<^verbatim>\<open>try\<close> block\<close>
  "canonicalizeSecUrl_try v alert =
     (case URL_new v of
        Inl e \<Rightarrow> Inl e
      | Inr parsed \<Rightarrow>
          if \<not> sec_gov_test (hostname parsed) then Inr []
          else let path = pathname parsed;
                   lowerPath = toLowerCase path
               in if lowerPath = ''/ix''
                  then (let docPath = (case searchParams_get parsed ''doc'' of None \<Rightarrow> [] | Some d \<Rightarrow> d)
                        in if startsWith (toLowerCase docPath) ''/archives/'' then Inr (href parsed)
                           else Inr [])
                  else if \<not> str_includes lowerPath ''/archives/'' then Inr []
                  else let last = last_segment lowerPath
                       in if last = ''index.html'' \<or> last = ''index.htm''
                          then Inr (buildEdgarIndexUrl (cik alert) (accession_number alert))
                          else if \<not> str_includes last ''.''
                          then Inr (buildEdgarIndexUrl (cik alert) (accession_number alert))
                          else Inr (href parsed))"

definition canonicalizeSecUrl :: "string option \<Rightarrow> alert \<Rightarrow> string" where
  "canonicalizeSecUrl url alert =
     (let v = trim (str_or_empty url)
      in if v = [] then []
         else case canonicalizeSecUrl_try v alert of Inl _ \<Rightarrow> [] | Inr r \<Rightarrow> r)"

definition isUsableSecFilingUrl_try :: "string \<Rightarrow> exn + bool" where
  "isUsableSecFilingUrl_try v =
     (case URL_new v of
        Inl e \<Rightarrow> Inl e
      | Inr parsed \<Rightarrow>
          if \<not> sec_gov_test (hostname parsed) then Inr False
          else let path = pathname parsed
               in if path = ''/'' \<or> path = [] then Inr False
                  else let lowerPath = toLowerCase path
                       in if lowerPath = ''/ix''
                          then (let docPath = (case searchParams_get parsed ''doc'' of None \<Rightarrow> [] | Some d \<Rightarrow> d)
                                in Inr (startsWith (toLowerCase docPath) ''/archives/''))
                          else if \<not> str_includes lowerPath ''/archives/'' then Inr False
                          else let last = last_segment lowerPath
                               in if \<not> str_includes last ''.'' then Inr False
                                  else if last = ''index.html'' \<or> last = ''index.htm'' then Inr False
                                  else Inr True)"

definition isUsableSecFilingUrl :: "string option \<Rightarrow> bool" where
  "isUsableSecFilingUrl url =
     (let v = trim (str_or_empty url)
      in if v = [] then False
         else case isUsableSecFilingUrl_try v of Inl _ \<Rightarrow> False | Inr r \<Rightarrow> r)"

definition toIxViewerUrl_try :: "string \<Rightarrow> exn + string" where
  "toIxViewerUrl_try v =
     (case URL_new v of
        Inl e \<Rightarrow> Inl e
      | Inr parsed \<Rightarrow>
          if \<not> sec_gov_test (hostname parsed) then Inr []
          else let lowerPath = toLowerCase (pathname parsed)
               in if lowerPath = ''/ix'' then Inr (href parsed)
                  else if \<not> str_includes lowerPath ''/archives/'' then Inr []
                  else let last = last_segment lowerPath
                       in if \<not> str_includes last ''.'' then Inr []
                          else if last = ''index.html'' \<or> last = ''index.htm'' then Inr []
                          else Inr (''https://www.sec.gov/ix?doc='' @ pathname parsed))"

definition toIxViewerUrl :: "string option \<Rightarrow> string" where
  "toIxViewerUrl url =
     (let v = trim (str_or_empty url)
      in if v = [] then []
         else case toIxViewerUrl_try v of Inl _ \<Rightarrow> [] | Inr r \<Rightarrow> r)"

record links =
  secLink :: string
  primaryLink :: string

definition resolveLinks :: "alert \<Rightarrow> links" where
  "resolveLinks alert =
     (let candidates = [canonicalizeSecUrl (primary_document_url alert) alert,
                        canonicalizeSecUrl (sec_filing_url alert) alert,
                        canonicalizeSecUrl (sec_index_url alert) alert];
          best = or_else (or_else (case find (\<lambda>item. isUsableSecFilingUrl (Some item)) candidates of
                                     None \<Rightarrow> [] | Some item \<Rightarrow> item)
                                  (buildEdgarIndexUrl (cik alert) (accession_number alert)))
                         ''#'';
          primaryCandidate = canonicalizeSecUrl (primary_document_url alert) alert;
          primary = (if isUsableSecFilingUrl (Some primaryCandidate) then primaryCandidate else []);
          viewer = toIxViewerUrl (Some best)
      in \<lparr>secLink = or_else viewer best,
          primaryLink = (if primary \<noteq> [] \<and> primary \<noteq> or_else viewer best then primary else [])\<rparr>)"


section \<open>The dashboard: cache, page elements, metrics, filter and refresh\<close>

text \<open>
  The script keeps \<^verbatim>\<open>mode\<close>, \<^verbatim>\<open>cachedStatus\<close> and \<^verbatim>\<open>allAlerts\<close> in module variables and
  writes to page elements it looked up once; an element that the page lacks is \<^verbatim>\<open>null\<close>
  (\<open>None\<close>) and every write to it is skipped. A metric element holds the count it shows
  (the locale formatting of \<^verbatim>\<open>fmtNumber\<close> is not modelled), the alert list holds the cards
  shown, each with its record and its resolved links (the markup is not modelled). The
  status document is of any type \<open>'s\<close>; the text \<^verbatim>\<open>updateStatusLine\<close> builds from it is
  the parameter \<open>summary\<close>. \<^verbatim>\<open>new Date(s).getTime()\<close> is the parameter \<open>getTime\<close>, \<open>None\<close>
  for \<^verbatim>\<open>NaN\<close> (an unparseable date): parsing of dates is left to the implementation by
  the language. The documents read have the shape the backend writes: the status is an
  object, a record of the alert list is an object whose text fields are strings or absent.
\<close>

datatype mode = Api | Static

record 's dashboard =
  mode :: mode
  cachedStatus :: "'s option"
  allAlerts :: "alert list"
  statusEl :: "string option"
  alertsEl :: "(alert \<times> links) list option"
  visibleCountEl :: "nat option"
  metricTotalEl :: "nat option"
  metricCryptoEl :: "nat option"
  metricRegularEl :: "nat option"
  metricSentEl :: "nat option"
  searchInputEl :: "string option"
  formFilterEl :: "string option"

definition set_if_present :: "'a \<Rightarrow> 'a option \<Rightarrow> 'a option" where
  \<comment> \<open>\<^verbatim>\<open>if (el) el.textContent = v\<close>\<close>
  "set_if_present v el = (case el of None \<Rightarrow> None | Some _ \<Rightarrow> Some v)"

definition updateMetrics :: "alert list \<Rightarrow> 's dashboard \<Rightarrow> 's dashboard" where
  "updateMetrics alerts d =
     (let total = length alerts;
          crypto = length (filter is_crypto alerts);
          regular = length (filter (\<lambda>alert. toUpperCase (str_or_empty (form_type alert))
                                              \<in> set [''485APOS'', ''485BPOS'']) alerts);
          sent = length (filter email_sent alerts)
      in d\<lparr>metricTotalEl := set_if_present total (metricTotalEl d),
            metricCryptoEl := set_if_present crypto (metricCryptoEl d),
            metricRegularEl := set_if_present regular (metricRegularEl d),
            metricSentEl := set_if_present sent (metricSentEl d)\<rparr>)"

definition updateStatusLine :: "(mode \<Rightarrow> 's \<Rightarrow> string) \<Rightarrow> 's \<Rightarrow> 's dashboard \<Rightarrow> 's dashboard" where
  "updateStatusLine summary status d =
     d\<lparr>statusEl := set_if_present (summary (mode d) status) (statusEl d)\<rparr>"

subsection \<open>Filtering and sorting\<close>

text \<open>
  \<^verbatim>\<open>Array.prototype.sort\<close> with a comparator is a stable sort; a comparator result of
  \<^verbatim>\<open>NaN\<close> counts as \<open>0\<close>. Its order is fixed by the language only for a consistent
  comparator; the model is the insertion sort that engines run on short arrays: each
  element in turn moves left past the elements that compare greater.
\<close>

fun insert_from_end :: "('a \<Rightarrow> 'a \<Rightarrow> int option) \<Rightarrow> 'a \<Rightarrow> 'a list \<Rightarrow> 'a list" where
  \<comment> \<open>the sorted prefix is held last element first\<close>
  "insert_from_end cmp x [] = [x]"
| "insert_from_end cmp x (y # ys) =
     (if 0 < (case cmp y x of None \<Rightarrow> 0 | Some v \<Rightarrow> v) then y # insert_from_end cmp x ys
      else x # y # ys)"

definition Array_sort :: "('a \<Rightarrow> 'a \<Rightarrow> int option) \<Rightarrow> 'a list \<Rightarrow> 'a list" where
  "Array_sort cmp xs = rev (foldl (\<lambda>sorted x. insert_from_end cmp x sorted) [] xs)"

definition alert_time :: "(string \<Rightarrow> int option) \<Rightarrow> alert \<Rightarrow> int option" where
  \<comment> \<open>\<^verbatim>\<open>new Date(a.created_at || a.updated || 0).getTime()\<close>\<close>
  "alert_time getTime a =
     (if str_or_empty (created_at a) \<noteq> [] then getTime (str_or_empty (created_at a))
      else if str_or_empty (updated a) \<noteq> [] then getTime (str_or_empty (updated a))
      else Some 0)"

definition by_time_desc :: "(string \<Rightarrow> int option) \<Rightarrow> alert \<Rightarrow> alert \<Rightarrow> int option" where
  \<comment> \<open>the comparator \<^verbatim>\<open>(a, b) => bTime - aTime\<close>\<close>
  "by_time_desc getTime a b =
     (case (alert_time getTime a, alert_time getTime b) of
        (Some aTime, Some bTime) \<Rightarrow> Some (bTime - aTime)
      | _ \<Rightarrow> None)"

definition join_space :: "string option list \<Rightarrow> string" where
  \<comment> \<open>\<^verbatim>\<open>items.join(" ")\<close>: an absent item joins as the empty string\<close>
  "join_space items =
     (case map str_or_empty items of [] \<Rightarrow> [] | f # fs \<Rightarrow> f @ concat (map (\<lambda>g. CHR 0x20 # g) fs))"

definition filterAlerts :: "(string \<Rightarrow> int option) \<Rightarrow> 's dashboard \<Rightarrow> alert list" where
  "filterAlerts getTime d =
     (let formFilter = (case formFilterEl d of None \<Rightarrow> ''ALL'' | Some v \<Rightarrow> v);
          query = (case searchInputEl d of None \<Rightarrow> [] | Some v \<Rightarrow> toLowerCase (trim v))
      in Array_sort (by_time_desc getTime)
           (filter (\<lambda>alert.
                      let form = toUpperCase (str_or_empty (form_type alert))
                      in if formFilter \<noteq> ''ALL'' \<and> form \<noteq> formFilter then False
                         else if query = [] then True
                         else str_includes
                                (toLowerCase (join_space [company_name alert, cik alert,
                                   accession_number alert, synopsis alert, form_type alert]))
                                query)
                   (allAlerts d)))"

definition renderAlerts :: "alert list \<Rightarrow> 's dashboard \<Rightarrow> 's dashboard" where
  "renderAlerts alerts d =
     d\<lparr>alertsEl := set_if_present (map (\<lambda>alert. (alert, resolveLinks alert)) alerts) (alertsEl d)\<rparr>"

definition applyFiltersAndRender :: "(string \<Rightarrow> int option) \<Rightarrow> 's dashboard \<Rightarrow> 's dashboard" where
  "applyFiltersAndRender getTime d =
     (let filtered = filterAlerts getTime d
      in renderAlerts filtered (d\<lparr>visibleCountEl := set_if_present (length filtered) (visibleCountEl d)\<rparr>))"

definition on_search_input :: "(string \<Rightarrow> int option) \<Rightarrow> string \<Rightarrow> 's dashboard \<Rightarrow> 's dashboard" where
  \<comment> \<open>the user edits the search box: its \<^verbatim>\<open>input\<close> listener runs\<close>
  "on_search_input getTime v d =
     applyFiltersAndRender getTime (d\<lparr>searchInputEl := set_if_present v (searchInputEl d)\<rparr>)"

definition on_form_filter_change :: "(string \<Rightarrow> int option) \<Rightarrow> string \<Rightarrow> 's dashboard \<Rightarrow> 's dashboard" where
  \<comment> \<open>the user picks a form filter: its \<^verbatim>\<open>change\<close> listener runs\<close>
  "on_form_filter_change getTime v d =
     applyFiltersAndRender getTime (d\<lparr>formFilterEl := set_if_present v (formFilterEl d)\<rparr>)"

subsection \<open>Refresh\<close>

text \<open>
  A read (\<^verbatim>\<open>jsonFetch\<close>) ends with the document or throws an \<^verbatim>\<open>Error\<close>, modelled by its
  message. \<^verbatim>\<open>Promise.all\<close> rejects with the rejection that comes first.
\<close>

definition fetchAlerts :: "string + alert list option \<Rightarrow> string + alert list" where
  \<comment> \<open>\<^verbatim>\<open>Array.isArray(alerts) ? alerts : []\<close>; \<open>None\<close> is a document that is no array\<close>
  "fetchAlerts read = (case read of Inl e \<Rightarrow> Inl e | Inr None \<Rightarrow> Inr [] | Inr (Some alerts) \<Rightarrow> Inr alerts)"

definition Promise_all :: "bool \<Rightarrow> string + 'a \<Rightarrow> string + 'b \<Rightarrow> string + 'a \<times> 'b" where
  \<comment> \<open>\<open>first\<close>: the first promise settles before the second\<close>
  "Promise_all first p q =
     (case (p, q) of
        (Inr x, Inr y) \<Rightarrow> Inr (x, y)
      | (Inl e, Inr _) \<Rightarrow> Inl e
      | (Inr _, Inl e) \<Rightarrow> Inl e
      | (Inl e, Inl e') \<Rightarrow> Inl (if first then e else e'))"

definition refreshAll ::
  "(mode \<Rightarrow> 's \<Rightarrow> string) \<Rightarrow> (string \<Rightarrow> int option) \<Rightarrow> bool \<Rightarrow> string + 's \<Rightarrow>
     string + alert list option \<Rightarrow> 's dashboard \<Rightarrow> 's dashboard" where
  "refreshAll summary getTime first statusRead alertsRead d =
     (case Promise_all first statusRead (fetchAlerts alertsRead) of
        Inr (status, alerts) \<Rightarrow>
          (let d1 = d\<lparr>cachedStatus := Some status\<rparr>;
               d2 = d1\<lparr>allAlerts := alerts\<rparr>;
               d3 = updateStatusLine summary status d2;
               d4 = updateMetrics alerts d3
           in applyFiltersAndRender getTime d4)
      | Inl message \<Rightarrow>
          d\<lparr>statusEl := set_if_present (''Dashboard refresh failed: '' @ message) (statusEl d)\<rparr>)"


section \<open>Vocabulary of the properties\<close>

definition canonical_digits :: "string \<Rightarrow> bool" where
  \<comment> \<open>a string of digits only that does not start with a needless zero\<close>
  "canonical_digits x \<longleftrightarrow>
     list_all is_digit x \<and> (case x of [] \<Rightarrow> True | c # cs \<Rightarrow> c \<noteq> CHR ''0'' \<or> cs = [])"

definition sample_alert :: alert where
  "sample_alert =
     \<lparr>company_name = Some ''Example Trust'', cik = Some ''0001234567'',
      accession_number = Some ''0001234567-24-000123'', form_type = Some ''485APOS'',
      synopsis = None, primary_document_url = None, sec_filing_url = None, sec_index_url = None,
      created_at = Some ''2024-01-02'', updated = None, error = None, is_crypto = False,
      email_sent = True, matched_keywords = []\<rparr>"

definition sample_getTime :: "string \<Rightarrow> int option" where
  \<comment> \<open>the platform's \<^verbatim>\<open>Date\<close> on three ISO dates (midnight UTC, in milliseconds); any
      other text of the examples is no date\<close>
  "sample_getTime = map_of [(''2024-01-01'', 1704067200000), (''2024-01-02'', 1704153600000),
                            (''2024-01-03'', 1704240000000)]"

definition sample_dashboard :: "string dashboard" where
  "sample_dashboard =
     \<lparr>mode = Static, cachedStatus = Some ''old status'', allAlerts = [sample_alert],
      statusEl = Some ''scheduler=every_10m'', alertsEl = Some [], visibleCountEl = Some 0,
      metricTotalEl = Some 1, metricCryptoEl = Some 0, metricRegularEl = Some 1, metricSentEl = Some 1,
      searchInputEl = Some [], formFilterEl = Some ''ALL''\<rparr>"

definition metric_counts :: "alert list \<Rightarrow> nat \<times> nat \<times> nat \<times> nat" where
  \<comment> \<open>the four Metrics values of a record set, in the words of the specification\<close>
  "metric_counts alerts =
     (length alerts,
      length (filter is_crypto alerts),
      length (filter (\<lambda>a. toUpperCase (str_or_empty (form_type a)) = ''485APOS'' \<or>
                            toUpperCase (str_or_empty (form_type a)) = ''485BPOS'') alerts),
      length (filter email_sent alerts))"

definition shown_metrics :: "'s dashboard \<Rightarrow> nat option \<times> nat option \<times> nat option \<times> nat option" where
  "shown_metrics d = (metricTotalEl d, metricCryptoEl d, metricRegularEl d, metricSentEl d)"

definition time_key :: "(string \<Rightarrow> int option) \<Rightarrow> alert \<Rightarrow> int" where
  \<comment> \<open>the timestamp of a record whose date parses\<close>
  "time_key getTime a = (case alert_time getTime a of None \<Rightarrow> 0 | Some t \<Rightarrow> t)"

definition url_text :: "char \<Rightarrow> bool" where
  \<comment> \<open>a character that neither ends the path of a URL nor is dropped by the parser\<close>
  "url_text c \<longleftrightarrow> c \<notin> set [CHR ''#'', CHR ''?'', CHR 0x09, CHR 0x0A, CHR 0x0D]"

definition segment_char :: "char \<Rightarrow> bool" where
  \<comment> \<open>a character that the path state keeps as it is inside one segment\<close>
  "segment_char c \<longleftrightarrow> \<not> path_set c \<and> c \<notin> set [CHR ''/'', CHR 0x5C, CHR ''%'']"

definition plain_segment :: "string \<Rightarrow> bool" where
  "plain_segment s \<longleftrightarrow> list_all segment_char s \<and> (\<exists>c\<in>set s. c \<noteq> CHR ''.'')"

definition ascii_word_char :: "char \<Rightarrow> bool" where
  "ascii_word_char c \<longleftrightarrow> \<not> ascii_space c \<and> code c < 128"

definition archive_url :: "string \<Rightarrow> string \<Rightarrow> string \<Rightarrow> string" where
  \<comment> \<open>the shape of the URLs \<^verbatim>\<open>buildEdgarIndexUrl\<close> writes\<close>
  "archive_url e d l = ''https://www.sec.gov/Archives/edgar/data/'' @ e @ ''/'' @ d @ ''/'' @ l"

definition archive_path :: "string \<Rightarrow> string \<Rightarrow> string \<Rightarrow> string" where
  "archive_path e d l = ''/Archives/edgar/data/'' @ e @ ''/'' @ d @ ''/'' @ l"

definition valid_accession :: "string \<Rightarrow> bool" where
  \<comment> \<open>dash-delimited digits\<close>
  "valid_accession r \<longleftrightarrow> list_all (\<lambda>c. is_digit c \<or> c = CHR ''-'') r \<and> list_ex is_digit r"

section \<open>Decimal digits and Numbers\<close>

lemma is_digit_cases:
  "is_digit c \<longleftrightarrow> c = CHR ''0'' \<or> c = CHR ''1'' \<or> c = CHR ''2'' \<or> c = CHR ''3'' \<or> c = CHR ''4'' \<or>
     c = CHR ''5'' \<or> c = CHR ''6'' \<or> c = CHR ''7'' \<or> c = CHR ''8'' \<or> c = CHR ''9''"
  by (simp add: is_digit_def)

lemma digit_char_val: "is_digit c \<Longrightarrow> digit_char (digit_val c) = c"
  by (auto simp: is_digit_cases digit_char_def digit_val_def)

lemma digit_val_range: "is_digit c \<Longrightarrow> 0 \<le> digit_val c \<and> digit_val c < 10"
  by (auto simp: is_digit_cases digit_val_def)

lemma digit_val_zero: "is_digit c \<Longrightarrow> digit_val c = 0 \<longleftrightarrow> c = CHR ''0''"
  by (auto simp: is_digit_cases digit_val_def)

lemma parse_decimal_snoc: "parse_decimal (xs @ [c]) = 10 * parse_decimal xs + digit_val c"
  by (simp add: parse_decimal_def)

lemma parse_decimal_nonneg: "list_all is_digit xs \<Longrightarrow> 0 \<le> parse_decimal xs"
proof (induction xs rule: rev_induct)
  case Nil
  show ?case by (simp add: parse_decimal_def)
next
  case (snoc c xs)
  then show ?case using digit_val_range [of c] by (simp add: parse_decimal_snoc)
qed

lemma parse_decimal_pos:
  "list_all is_digit xs \<Longrightarrow> xs \<noteq> [] \<Longrightarrow> hd xs \<noteq> CHR ''0'' \<Longrightarrow> 0 < parse_decimal xs"
proof (induction xs rule: rev_induct)
  case Nil
  then show ?case by simp
next
  case (snoc c xs)
  show ?case
  proof (cases "xs = []")
    case True
    with snoc.prems show ?thesis
      using digit_val_range [of c] digit_val_zero [of c] by (simp add: parse_decimal_def)
  next
    case False
    with snoc have "0 < parse_decimal xs" by simp
    with snoc.prems show ?thesis
      using digit_val_range [of c] by (simp add: parse_decimal_snoc)
  qed
qed

lemma decimal_parse_decimal:
  "list_all is_digit xs \<Longrightarrow> xs \<noteq> [] \<Longrightarrow> hd xs \<noteq> CHR ''0'' \<or> length xs = 1 \<Longrightarrow>
     decimal (parse_decimal xs) = xs"
proof (induction xs rule: rev_induct)
  case Nil
  then show ?case by simp
next
  case (snoc c xs)
  have c: "is_digit c" using snoc.prems by simp
  show ?case
  proof (cases "xs = []")
    case True
    then show ?thesis
      using digit_val_range [OF c] digit_char_val [OF c]
      by (simp add: parse_decimal_def decimal.simps)
  next
    case False
    with snoc.prems have hd: "hd xs \<noteq> CHR ''0''" and ds: "list_all is_digit xs"
      by (cases xs; simp)+
    have pos: "0 < parse_decimal xs" using parse_decimal_pos [OF ds False hd] .
    have ih: "decimal (parse_decimal xs) = xs" using snoc.IH ds False hd by simp
    have "decimal (10 * parse_decimal xs + digit_val c) =
            decimal (parse_decimal xs) @ [digit_char (digit_val c)]"
      using pos digit_val_range [OF c] by (subst decimal.simps) simp
    then show ?thesis using ih digit_char_val [OF c] by (simp add: parse_decimal_snoc)
  qed
qed

lemma bits_lower: "0 < v \<Longrightarrow> 2 ^ bits v \<le> 2 * v"
proof (induction v rule: bits.induct)
  case (1 n)
  show ?case
  proof (cases "n div 2 \<le> 0")
    case True
    with 1 have "n = 1" by linarith
    then show ?thesis by (simp add: bits.simps)
  next
    case False
    with 1 have "2 ^ bits (n div 2) \<le> 2 * (n div 2)" by simp
    moreover have "bits n = Suc (bits (n div 2))" using 1 by (subst bits.simps) simp
    ultimately show ?thesis by simp
  qed
qed

lemma bits_upper: "0 \<le> v \<Longrightarrow> v < 2 ^ bits v"
proof (induction v rule: bits.induct)
  case (1 n)
  show ?case
  proof (cases "n \<le> 0")
    case True
    with 1 show ?thesis by (simp add: bits.simps)
  next
    case False
    with 1 have "n div 2 < 2 ^ bits (n div 2)" by simp
    moreover have "bits n = Suc (bits (n div 2))" using False by (subst bits.simps) simp
    ultimately show ?thesis by simp
  qed
qed


lemma Number_of_int_small: "n < 2 ^ 53 \<Longrightarrow> Number_of_int n = Finite n"
  by (simp add: Number_of_int_def)

lemma Number_of_int_large:
  assumes "2 ^ 53 \<le> v" and "Number_of_int v = Finite n"
  shows "2 ^ 53 \<le> n"
proof -
  define e where "e = bits v - 53"
  define q where "q = v div 2 ^ e"
  have "n = q * 2 ^ e \<or> n = (q + 1) * 2 ^ e"
    using assms unfolding Number_of_int_def Let_def e_def q_def
    by (simp split: if_splits)
  then obtain q' where n: "n = q' * 2 ^ e" and qq: "q \<le> q'" by auto
  have pos: "0 < v" using assms(1) by (smt (verit) zero_less_power)
  have lt: "(2::int) ^ 53 < 2 ^ bits v" using bits_upper [of v] pos assms(1) by linarith
  have b: "53 < bits v"
  proof (rule ccontr)
    assume "\<not> 53 < bits v"
    then have "(2::int) ^ bits v \<le> 2 ^ 53" by (intro power_increasing) simp_all
    with lt show False by linarith
  qed
  then have be: "bits v = Suc (e + 52)" by (simp add: e_def)
  have "(2::int) ^ bits v \<le> 2 * v" using bits_lower [OF pos] .
  then have "(2::int) ^ 52 * 2 ^ e \<le> v" by (simp add: be power_add mult.commute)
  then have "((2::int) ^ 52 * 2 ^ e) div 2 ^ e \<le> v div 2 ^ e" by (rule zdiv_mono1) simp
  then have "(2::int) ^ 52 \<le> q" by (simp add: q_def)
  with qq have "(2::int) ^ 52 \<le> q'" by linarith
  moreover have "(2::int) \<le> 2 ^ e" using b by (cases e) (simp_all add: e_def)
  ultimately have "(2::int) ^ 52 * 2 \<le> q' * 2 ^ e"
    by (intro mult_mono) simp_all
  then show ?thesis by (simp add: n)
qed

lemma Number_of_int_exact:
  assumes "n < 2 ^ 53" and "Number_of_int v = Finite n"
  shows "v = n"
proof (cases "v < 2 ^ 53")
  case True
  then show ?thesis using assms(2) by (simp add: Number_of_int_small)
next
  case False
  then have "2 ^ 53 \<le> n" using Number_of_int_large [of v n] assms(2) by simp
  then show ?thesis using assms(1) by simp
qed

lemma repr_candidates_exact:
  assumes "n < 2 ^ 53" and "v \<in> set (repr_candidates n)"
  shows "v = n"
proof -
  from assms(2) obtain cs where "v \<in> set (filter (\<lambda>v. v \<noteq> 0 \<and> Number_of_int v = Finite n) cs)"
    unfolding repr_candidates_def set_concat set_map by blast
  then have "Number_of_int v = Finite n" by simp
  with assms(1) show ?thesis by (rule Number_of_int_exact)
qed

lemma foldl_choose_same:
  "\<forall>v\<in>set cs. v = n \<Longrightarrow> foldl (\<lambda>b v. if P v b then v else b) n cs = n"
  by (induction cs) simp_all

lemma shortest_repr_exact: "n < 2 ^ 53 \<Longrightarrow> shortest_repr n = n"
  unfolding shortest_repr_def
  by (rule foldl_choose_same) (simp add: repr_candidates_exact)

lemma length_decimal_le: "n < 10 ^ k \<Longrightarrow> 0 < k \<Longrightarrow> length (decimal n) \<le> k"
proof (induction k arbitrary: n)
  case 0
  then show ?case by simp
next
  case (Suc k)
  show ?case
  proof (cases "n < 10")
    case True
    then show ?thesis by (simp add: decimal.simps)
  next
    case False
    then have k: "0 < k" using Suc.prems by (cases k) simp_all
    have "n div 10 < 10 ^ k" using Suc.prems by simp
    then have "length (decimal (n div 10)) \<le> k" using Suc.IH k by simp
    then show ?thesis using False by (subst decimal.simps) simp
  qed
qed

lemma strip_pad: "rev (dropWhile (\<lambda>c. c = a) (rev xs)) @
    replicate (length xs - length (dropWhile (\<lambda>c. c = a) (rev xs))) a = xs"
proof -
  have tw: "takeWhile (\<lambda>c. c = a) ys = replicate (length (takeWhile (\<lambda>c. c = a) ys)) a" for ys
    by (induction ys) simp_all
  have "rev xs = takeWhile (\<lambda>c. c = a) (rev xs) @ dropWhile (\<lambda>c. c = a) (rev xs)" by simp
  then have "xs = rev (dropWhile (\<lambda>c. c = a) (rev xs)) @ rev (takeWhile (\<lambda>c. c = a) (rev xs))"
    by (metis rev_append rev_rev_ident)
  moreover have "length (takeWhile (\<lambda>c. c = a) (rev xs)) =
      length xs - length (dropWhile (\<lambda>c. c = a) (rev xs))"
    by (metis add_diff_cancel_right' length_append length_rev takeWhile_dropWhile_id)
  ultimately show ?thesis using tw [of "rev xs"] by (metis rev_replicate)
qed

lemma Number_toString_exact:
  assumes "0 \<le> n" and "n < 2 ^ 53"
  shows "Number_toString (Finite n) = decimal n"
proof (cases "n = 0")
  case True
  then show ?thesis by (simp add: decimal.simps digit_char_def)
next
  case False
  have "n < 10 ^ 21" using assms(2) by simp
  then have "length (decimal n) \<le> 21" by (rule length_decimal_le) simp
  then show ?thesis
    using False by (simp add: shortest_repr_exact [OF assms(2)] Let_def sig_digits_def strip_pad)
qed

lemma filter_digits_id: "list_all is_digit x \<Longrightarrow> filter is_digit x = x"
  by (induction x) simp_all

lemma normalizeCik_canonical:
  assumes "canonical_digits x" and "parse_decimal x < 2 ^ 53"
  shows "normalizeCik (Some x) = x"
proof (cases "x = []")
  case True
  then show ?thesis by (simp add: normalizeCik_def str_or_empty_def)
next
  case False
  have ds: "list_all is_digit x" using assms(1) by (simp add: canonical_digits_def)
  have hd: "hd x \<noteq> CHR ''0'' \<or> length x = 1"
    using assms(1) False by (cases x) (auto simp: canonical_digits_def)
  have "Number_parseInt x = Finite (parse_decimal x)"
    using assms(2) by (simp only: Number_parseInt_def Number_of_int_small)
  then have "Number_toString (Number_parseInt x) = decimal (parse_decimal x)"
    using Number_toString_exact [OF parse_decimal_nonneg [OF ds] assms(2)] by (simp only:)
  also have "\<dots> = x" using decimal_parse_decimal [OF ds False hd] .
  finally show ?thesis
    using False by (simp add: normalizeCik_def str_or_empty_def filter_digits_id [OF ds])
qed

section \<open>Identifier normalisation is idempotent on canonical input\<close>

text \<open>
  Claim C4, as stated, fails: a canonical digit string is returned unchanged only while
  its value is exactly representable. \<^verbatim>\<open>normalizeCik\<close> goes through a Number, and from
  \<open>2^53 + 1\<close> on the digits can come back changed.
\<close>

theorem normalizeCik_changes_canonical_input:
  "canonical_digits ''9007199254740993'' \<and>
   normalizeCik (Some ''9007199254740993'') = ''9007199254740992'' \<and>
   normalizeCik (Some ''9007199254740993'') \<noteq> ''9007199254740993''"
proof -
  have "normalizeCik (Some ''9007199254740993'') = ''9007199254740992''" by code_simp
  then show ?thesis by (simp add: canonical_digits_def is_digit_def)
qed

text \<open>
  Claim C4, amended: for every canonical digit string \<open>x\<close> (digits only, no leading zero)
  whose value is below \<open>2^53\<close>, \<^verbatim>\<open>normalizeCik(x) = x\<close>, hence
  \<^verbatim>\<open>normalizeCik(normalizeCik(x)) = normalizeCik(x)\<close>; and for every string \<open>y\<close> of
  digits only, \<^verbatim>\<open>normalizeAccessionDigits(y) = y\<close>, hence it is idempotent there.
\<close>

theorem normalize_idempotent_on_canonical:
  "(canonical_digits x \<and> parse_decimal x < 2 ^ 53 \<longrightarrow>
      normalizeCik (Some x) = x \<and>
      normalizeCik (Some (normalizeCik (Some x))) = normalizeCik (Some x)) \<and>
   (list_all is_digit y \<longrightarrow>
      normalizeAccessionDigits (Some y) = y \<and>
      normalizeAccessionDigits (Some (normalizeAccessionDigits (Some y))) =
        normalizeAccessionDigits (Some y))"
  by (simp add: normalizeCik_canonical normalizeAccessionDigits_def str_or_empty_def filter_digits_id)

theorem normalize_idempotent_on_canonical_witness:
  "canonical_digits ''1234567'' \<and> parse_decimal ''1234567'' < 2 ^ 53 \<and>
   normalizeCik (Some ''1234567'') = ''1234567'' \<and>
   normalizeCik (Some (normalizeCik (Some ''1234567''))) = normalizeCik (Some ''1234567'') \<and>
   list_all is_digit ''000123456724000123'' \<and>
   normalizeAccessionDigits (Some ''000123456724000123'') = ''000123456724000123'' \<and>
   normalizeAccessionDigits (Some (normalizeAccessionDigits (Some ''000123456724000123''))) =
     normalizeAccessionDigits (Some ''000123456724000123'')"
proof -
  have c: "canonical_digits ''1234567''" by (simp add: canonical_digits_def is_digit_def)
  have v: "parse_decimal ''1234567'' < 2 ^ 53" by (simp add: parse_decimal_def digit_val_def)
  have d: "list_all is_digit ''000123456724000123''" by (simp add: is_digit_def)
  show ?thesis
    using normalize_idempotent_on_canonical [of "''1234567''" "''000123456724000123''"] c v d
    by simp
qed

section \<open>Resolved links\<close>

lemma or_else_nonempty: "b \<noteq> [] \<Longrightarrow> or_else a b \<noteq> []"
  by (simp add: or_else_def)

text \<open>
  Claim C7: for every record, the primary display link \<^verbatim>\<open>secLink\<close> of \<^verbatim>\<open>resolveLinks\<close>
  is never the empty string, and the secondary display link \<^verbatim>\<open>primaryLink\<close> is either
  empty or different from \<^verbatim>\<open>secLink\<close>.
\<close>

theorem resolveLinks_never_empty_and_distinct:
  "secLink (resolveLinks a) \<noteq> [] \<and>
   (primaryLink (resolveLinks a) \<noteq> [] \<longrightarrow> primaryLink (resolveLinks a) \<noteq> secLink (resolveLinks a))"
  by (simp add: resolveLinks_def Let_def or_else_nonempty)

lemma sample_doc_links:
  "resolveLinks (sample_alert\<lparr>primary_document_url := Some ''https://www.sec.gov/Archives/edgar/data/1/2/x.htm''\<rparr>) =
     \<lparr>secLink = ''https://www.sec.gov/ix?doc=/Archives/edgar/data/1/2/x.htm'',
      primaryLink = ''https://www.sec.gov/Archives/edgar/data/1/2/x.htm''\<rparr>"
  by code_simp

theorem resolveLinks_never_empty_and_distinct_witness:
  "secLink (resolveLinks (sample_alert\<lparr>primary_document_url := Some ''https://www.sec.gov/Archives/edgar/data/1/2/x.htm''\<rparr>)) \<noteq> [] \<and>
   primaryLink (resolveLinks (sample_alert\<lparr>primary_document_url := Some ''https://www.sec.gov/Archives/edgar/data/1/2/x.htm''\<rparr>)) \<noteq> [] \<and>
   primaryLink (resolveLinks (sample_alert\<lparr>primary_document_url := Some ''https://www.sec.gov/Archives/edgar/data/1/2/x.htm''\<rparr>)) \<noteq>
     secLink (resolveLinks (sample_alert\<lparr>primary_document_url := Some ''https://www.sec.gov/Archives/edgar/data/1/2/x.htm''\<rparr>))"
  using resolveLinks_never_empty_and_distinct
    [of "sample_alert\<lparr>primary_document_url := Some ''https://www.sec.gov/Archives/edgar/data/1/2/x.htm''\<rparr>"]
  by (simp add: sample_doc_links)

text \<open>
  Claim C10: \<^verbatim>\<open>resolveLinks\<close> reads only the fields \<^verbatim>\<open>primary_document_url\<close>,
  \<^verbatim>\<open>sec_filing_url\<close>, \<^verbatim>\<open>sec_index_url\<close>, \<^verbatim>\<open>cik\<close> and \<^verbatim>\<open>accession_number\<close>: two records
  that agree on these five get the same links, whatever their other fields hold.
\<close>

theorem resolveLinks_depends_on_five_fields:
  assumes "primary_document_url a = primary_document_url b"
    and "sec_filing_url a = sec_filing_url b"
    and "sec_index_url a = sec_index_url b"
    and "cik a = cik b"
    and "accession_number a = accession_number b"
  shows "resolveLinks a = resolveLinks b"
proof -
  have "canonicalizeSecUrl_try v a = canonicalizeSecUrl_try v b" for v
    unfolding canonicalizeSecUrl_try_def assms(4,5) ..
  then have "canonicalizeSecUrl u a = canonicalizeSecUrl u b" for u
    unfolding canonicalizeSecUrl_def by (simp only:)
  then show ?thesis using assms by (simp add: resolveLinks_def)
qed

theorem resolveLinks_depends_on_five_fields_witness:
  "resolveLinks (sample_alert\<lparr>synopsis := Some ''text'', form_type := Some ''S-1'', created_at := None,
                              error := Some ''failed'', is_crypto := True\<rparr>) =
   resolveLinks sample_alert"
  by (rule resolveLinks_depends_on_five_fields) (simp_all add: sample_alert_def)

section \<open>The URL parser on the URLs the script writes\<close>

lemma takeWhile_no_delim: "d \<notin> set xs \<Longrightarrow> takeWhile (\<lambda>c. c \<noteq> d) xs = xs"
  by (induction xs) auto

lemma dropWhile_no_delim: "d \<notin> set xs \<Longrightarrow> dropWhile (\<lambda>c. c \<noteq> d) xs = []"
  by (induction xs) auto

lemma split_first_absent: "d \<notin> set xs \<Longrightarrow> split_first d xs = (xs, None)"
  by (simp add: split_first_def takeWhile_no_delim dropWhile_no_delim)

lemma strip_c0_space_id:
  assumes "s \<noteq> []" and "32 < code (hd s)" and "32 < code (last s)"
  shows "strip_c0_space s = s"
proof -
  have 1: "dropWhile (\<lambda>c. code c \<le> 32) s = s" using assms(1,2) by (cases s) simp_all
  have r: "rev s = last s # rev (butlast s)"
    using assms(1) by (metis append_butlast_last_id rev_eq_Cons_iff rev_rev_ident)
  have "dropWhile (\<lambda>c. code c \<le> 32) (last s # rev (butlast s)) = last s # rev (butlast s)"
    using assms(3) by simp
  then have 2: "dropWhile (\<lambda>c. code c \<le> 32) (rev s) = rev s"
    by (simp only: r)
  show ?thesis by (simp only: strip_c0_space_def 1 2 rev_rev_ident)
qed

lemma filter_tab_newline_id:
  "list_all url_text s \<Longrightarrow> filter (\<lambda>c. c \<notin> set [CHR 0x09, CHR 0x0A, CHR 0x0D]) s = s"
  by (auto simp: list_all_iff url_text_def filter_id_conv)

lemma authority_www_sec_gov:
  "parse_authority ''https'' ''www.sec.gov'' = Some ([], [], Some ''www.sec.gov'', None)"
  by code_simp

lemma preprocess_https_www_sec_gov:
  assumes "list_all url_text p" and "p = [] \<or> 32 < code (last p)"
  shows "preprocess (''https://www.sec.gov/'' @ p) = ''https://www.sec.gov/'' @ p"
proof -
  have all: "list_all url_text (''https://www.sec.gov/'' @ p)"
    using assms(1) by (simp add: url_text_def)
  have "32 < code (last (''https://www.sec.gov/'' @ p))"
    using assms(2) by (cases "p = []") (simp_all add: code_def)
  then have strip: "strip_c0_space (''https://www.sec.gov/'' @ p) = ''https://www.sec.gov/'' @ p"
    by (intro strip_c0_space_id) (simp_all add: code_def)
  show ?thesis
    by (simp only: preprocess_def strip filter_tab_newline_id [OF all])
qed

lemma scheme_state_https_www_sec_gov:
  "scheme_state (''https://www.sec.gov/'' @ p) = Some (''https'', ''//www.sec.gov/'' @ p)"
  by (simp add: scheme_state_def is_scheme_char_def is_alpha_def is_digit_def toLowerCase_def to_lower_def)

lemma parse_hierarchy_https_www_sec_gov:
  "parse_hierarchy ''https'' (''//www.sec.gov/'' @ p) =
     Some ([], [], Some ''www.sec.gov'', None, parse_path ''https'' p)"
proof -
  have sp: "is_special ''https''" "''https'' \<noteq> ''file''" by (simp_all add: is_special_def)
  show ?thesis
    by (simp add: parse_hierarchy_def sp is_slash_def authority_www_sec_gov path_start_def)
qed

lemma new_URL_https_www_sec_gov:
  assumes "list_all url_text p" and "p = [] \<or> 32 < code (last p)"
  shows "new_URL (''https://www.sec.gov/'' @ p) =
           Some \<lparr>url_scheme = ''https'', url_username = [], url_password = [],
                 url_host = Some ''www.sec.gov'', url_port = None,
                 url_path = parse_path ''https'' p, url_query = None, url_fragment = None\<rparr>"
proof -
  have nh: "CHR ''#'' \<notin> set (''//www.sec.gov/'' @ p)" and nq: "CHR ''?'' \<notin> set (''//www.sec.gov/'' @ p)"
    using assms(1) by (auto simp: list_all_iff url_text_def)
  show ?thesis
    by (simp only: new_URL_def preprocess_https_www_sec_gov [OF assms] scheme_state_https_www_sec_gov
        split_first_absent [OF nh] split_first_absent [OF nq] parse_hierarchy_https_www_sec_gov
        option.case prod.case Let_def option.map)
qed

lemma path_set_delims:
  "path_set (CHR ''#'')" "path_set (CHR ''?'')" "path_set (CHR 0x09)" "path_set (CHR 0x0A)"
  "path_set (CHR 0x0D)"
  by (simp_all add: path_set_def query_set_def c0_control_set_def code_def)

lemma segment_char_url_text: "segment_char c \<Longrightarrow> url_text c"
  using path_set_delims by (auto simp: segment_char_def url_text_def)

lemma percent_encode_plain: "list_all segment_char s \<Longrightarrow> percent_encode path_set s = s"
  by (induction s) (simp_all add: percent_encode_def segment_char_def)

lemma to_lower_dot: "to_lower c = CHR ''.'' \<longleftrightarrow> c = CHR ''.''"
  by (simp add: to_lower_def)

lemma to_lower_percent: "to_lower c = CHR ''%'' \<longleftrightarrow> c = CHR ''%''"
  by (simp add: to_lower_def)

lemma to_lower_slash: "to_lower c = CHR ''/'' \<longleftrightarrow> c = CHR ''/''"
  by (simp add: to_lower_def)

lemma set_toLowerCase: "set (toLowerCase s) = to_lower ` set s"
  by (simp add: toLowerCase_def)

lemma dot_segment_shape:
  assumes "single_dot s \<or> double_dot s"
  shows "CHR ''%'' \<in> set s \<or> set s \<subseteq> {CHR ''.''}"
proof -
  from assms consider "toLowerCase s = ''.''" | "toLowerCase s = ''..''"
    | "CHR ''%'' \<in> set (toLowerCase s)"
    by (auto simp: single_dot_def double_dot_def)
  then show ?thesis
  proof cases
    case 1
    then have "to_lower ` set s = {CHR ''.''}" by (simp add: set_toLowerCase [symmetric])
    then have "\<forall>c\<in>set s. to_lower c = CHR ''.''" by blast
    then show ?thesis by (auto simp: to_lower_dot)
  next
    case 2
    then have "to_lower ` set s = {CHR ''.''}" by (simp add: set_toLowerCase [symmetric])
    then have "\<forall>c\<in>set s. to_lower c = CHR ''.''" by blast
    then show ?thesis by (auto simp: to_lower_dot)
  next
    case 3
    then obtain c where "c \<in> set s" "to_lower c = CHR ''%''"
      unfolding set_toLowerCase by force
    then show ?thesis by (simp add: to_lower_percent)
  qed
qed

lemma plain_segment_not_dot:
  assumes "plain_segment s"
  shows "\<not> single_dot s \<and> \<not> double_dot s"
proof -
  have "CHR ''%'' \<notin> set s" using assms by (auto simp: plain_segment_def list_all_iff segment_char_def)
  moreover have "\<not> set s \<subseteq> {CHR ''.''}" using assms by (auto simp: plain_segment_def)
  ultimately show ?thesis using dot_segment_shape [of s] by blast
qed

lemma path_state_plain:
  assumes "plain_segment b"
  shows "path_state ''https'' path (b # bs) = path_state ''https'' (path @ [b]) bs"
proof -
  have e: "percent_encode path_set b = b"
    using assms by (simp add: percent_encode_plain plain_segment_def)
  have f: "''https'' \<noteq> ''file''" by simp
  show ?thesis
    using plain_segment_not_dot [OF assms] by (simp only: path_state.simps Let_def e f if_False simp_thms)
qed

lemma split_on_single: "\<forall>c\<in>set a. \<not> P c \<Longrightarrow> split_on P a = [a]"
  by (induction a) simp_all

lemma split_on_append: "\<forall>c\<in>set a. \<not> P c \<Longrightarrow> P d \<Longrightarrow> split_on P (a @ d # b) = a # split_on P b"
  by (induction a) simp_all

lemma segment_char_not_slash: "list_all segment_char s \<Longrightarrow> \<forall>c\<in>set s. \<not> is_slash ''https'' c"
  by (auto simp: list_all_iff segment_char_def is_slash_def)

lemma unicode_spaces_bytes:
  "\<forall>w\<in>set unicode_spaces. w \<noteq> [] \<and> 127 < code (hd w) \<and> 127 < code (last w)"
  by (simp add: unicode_spaces_def code_def)

lemma startsWith_hd: "w \<noteq> [] \<Longrightarrow> startsWith (c # cs) w \<Longrightarrow> hd w = c"
  by (cases w) (simp_all add: startsWith_def)

lemma strip_spaces_id:
  assumes "s \<noteq> []" and "\<not> ascii_space (hd s)" and "\<forall>w\<in>set ws. w \<noteq> [] \<and> hd w \<noteq> hd s"
  shows "strip_spaces ws s = s"
proof (cases s)
  case Nil
  then show ?thesis using assms(1) by simp
next
  case (Cons c cs)
  have "filter (startsWith (c # cs)) ws = []"
    using assms(3) Cons by (auto simp: filter_empty_conv dest: startsWith_hd)
  then show ?thesis using assms(2) Cons by simp
qed

lemma trim_id:
  assumes "s \<noteq> []" and "ascii_word_char (hd s)" and "ascii_word_char (last s)"
  shows "trim s = s"
proof -
  have 1: "strip_spaces unicode_spaces s = s"
    using assms(1,2) unicode_spaces_bytes
    by (intro strip_spaces_id) (auto simp: ascii_word_char_def)
  have "\<forall>w\<in>set (map rev unicode_spaces). w \<noteq> [] \<and> hd w \<noteq> last s"
    using assms(3) unicode_spaces_bytes by (auto simp: ascii_word_char_def hd_rev)
  then have 2: "strip_spaces (map rev unicode_spaces) (rev s) = rev s"
    using assms(1,3) by (intro strip_spaces_id) (auto simp: ascii_word_char_def hd_rev)
  show ?thesis by (simp only: trim_def 1 2 rev_rev_ident)
qed

lemma digit_char_is_digit: "d < 10 \<Longrightarrow> is_digit (digit_char d)"
proof -
  assume "d < 10"
  then have "nat d < length ''0123456789''" by simp
  then have "''0123456789'' ! nat d \<in> set ''0123456789''" by (rule nth_mem)
  then show ?thesis by (simp only: is_digit_def digit_char_def)
qed

lemma decimal_digits: "list_all is_digit (decimal n)"
proof (induction n rule: decimal.induct)
  case (1 n)
  show ?case
  proof (cases "n < 10")
    case True
    then show ?thesis by (subst decimal.simps) (simp add: digit_char_is_digit)
  next
    case False
    then have "list_all is_digit (decimal (n div 10))" using 1 by simp
    moreover have "is_digit (digit_char (n mod 10))" by (rule digit_char_is_digit) simp
    ultimately show ?thesis using False by (subst decimal.simps) simp
  qed
qed

lemma decimal_nonempty: "decimal n \<noteq> []"
  by (subst decimal.simps) simp

lemma sig_digits_digits: "list_all is_digit (sig_digits v)"
proof -
  have "set (sig_digits v) \<subseteq> set (decimal v)"
    unfolding sig_digits_def by (auto dest: set_dropWhileD)
  then show ?thesis using decimal_digits [of v] by (auto simp: list_all_iff)
qed

lemma segment_char_digits: "list_all segment_char ''0123456789''"
  by (simp add: segment_char_def path_set_def query_set_def c0_control_set_def code_def)

lemma segment_char_digit:
  assumes "is_digit c"
  shows "segment_char c"
proof -
  have mem: "c \<in> set ''0123456789''" using assms by (simp only: is_digit_def)
  have all: "\<forall>x\<in>set ''0123456789''. segment_char x"
    using segment_char_digits by (simp only: list_all_iff)
  show ?thesis using mem by (rule bspec [OF all])
qed

lemma segment_char_letters:
  "list_all segment_char ''e+.-Infinity_index.html''"
  by (simp add: segment_char_def path_set_def query_set_def c0_control_set_def code_def)

lemma digits_segment: "list_all is_digit s \<Longrightarrow> list_all segment_char s"
  by (induction s) (simp_all add: segment_char_digit)

lemma digit_not_dot: "is_digit c \<Longrightarrow> c \<noteq> CHR ''.''"
  by (simp add: is_digit_cases) blast

lemma digits_plain:
  assumes "list_all is_digit s" and "s \<noteq> []"
  shows "plain_segment s"
proof -
  have "hd s \<in> set s" using assms(2) by simp
  moreover have "is_digit (hd s)" using assms by (cases s) simp_all
  then have "hd s \<noteq> CHR ''.''" by (rule digit_not_dot)
  ultimately have "\<exists>c\<in>set s. c \<noteq> CHR ''.''" by blast
  then show ?thesis using digits_segment [OF assms(1)] by (simp add: plain_segment_def)
qed

lemma Number_toString_plain: "plain_segment (Number_toString j)"
proof (cases j)
  case PosInfinity
  then show ?thesis using segment_char_letters by (auto simp: plain_segment_def)
next
  case (Finite x)
  show ?thesis
  proof (cases "x = 0")
    case True
    then show ?thesis using Finite by (simp add: digits_plain is_digit_def)
  next
    case False
    define v where "v = shortest_repr x"
    define s where "s = sig_digits v"
    define n where "n = length (decimal v)"
    have ds: "list_all is_digit s" by (simp add: s_def sig_digits_digits)
    have ss: "list_all segment_char s" using ds by (rule digits_segment)
    have n1: "0 < n" by (simp add: n_def decimal_nonempty)
    have e: "segment_char (CHR ''e'')" "segment_char (CHR ''+'')" "segment_char (CHR ''.'')"
      using segment_char_letters by simp_all
    have out: "Number_toString j =
        (if n \<le> 21 then s @ replicate (n - length s) (CHR ''0'')
         else if length s = 1 then s @ ''e+'' @ decimal (int n - 1)
         else take 1 s @ ''.'' @ drop 1 s @ ''e+'' @ decimal (int n - 1))"
      using Finite False by (simp add: Let_def v_def s_def n_def)
    have z: "is_digit (CHR ''0'')" by (simp add: is_digit_def)
    have a: "plain_segment (s @ replicate (n - length s) (CHR ''0''))"
    proof (rule digits_plain)
      show "list_all is_digit (s @ replicate (n - length s) (CHR ''0''))"
        using ds z by (auto simp: list_all_iff)
      show "s @ replicate (n - length s) (CHR ''0'') \<noteq> []"
        using n1 by (cases s) simp_all
    qed
    have dd: "list_all segment_char (decimal (int n - 1))"
      using decimal_digits by (rule digits_segment)
    have b: "plain_segment (s @ ''e+'' @ decimal (int n - 1))"
      using ss dd e by (auto simp: plain_segment_def)
    have st: "list_all segment_char (take 1 s)" "list_all segment_char (drop 1 s)"
      using ss by (auto simp: list_all_iff dest: in_set_takeD in_set_dropD)
    have c: "plain_segment (take 1 s @ ''.'' @ drop 1 s @ ''e+'' @ decimal (int n - 1))"
      using st dd e by (auto simp: plain_segment_def)
    show ?thesis using a b c by (simp add: out)
  qed
qed

lemma normalizeCik_plain: "normalizeCik c \<noteq> [] \<Longrightarrow> plain_segment (normalizeCik c)"
  by (auto simp: normalizeCik_def Let_def Number_toString_plain split: if_splits)

lemma normalizeCik_nonempty:
  "filter is_digit (str_or_empty c) \<noteq> [] \<Longrightarrow> normalizeCik c \<noteq> []"
  using Number_toString_plain [of "Number_parseInt (filter is_digit (str_or_empty c))"]
  by (auto simp: normalizeCik_def Let_def plain_segment_def)

lemma plain_literals:
  "plain_segment ''Archives''" "plain_segment ''edgar''" "plain_segment ''data''"
  by (simp_all add: plain_segment_def segment_char_def path_set_def query_set_def
      c0_control_set_def code_def)

lemma parse_path_archive:
  assumes "plain_segment e" and "plain_segment d" and "plain_segment l"
  shows "parse_path ''https'' (''Archives/edgar/data/'' @ e @ ''/'' @ d @ ''/'' @ l) =
           Segments [''Archives'', ''edgar'', ''data'', e, d, l]"
proof -
  let ?P = "is_slash ''https''"
  have sl: "?P (CHR ''/'')" by (simp add: is_slash_def)
  have lit: "\<forall>c\<in>set ''Archives''. \<not> ?P c" "\<forall>c\<in>set ''edgar''. \<not> ?P c" "\<forall>c\<in>set ''data''. \<not> ?P c"
    by (simp_all add: is_slash_def is_special_def)
  have ne: "\<forall>c\<in>set e. \<not> ?P c" and nd: "\<forall>c\<in>set d. \<not> ?P c" and nl: "\<forall>c\<in>set l. \<not> ?P c"
    using assms segment_char_not_slash [of e] segment_char_not_slash [of d]
      segment_char_not_slash [of l] by (simp_all add: plain_segment_def)
  have eq: "''Archives/edgar/data/'' @ e @ ''/'' @ d @ ''/'' @ l =
      ''Archives'' @ CHR ''/'' # (''edgar'' @ CHR ''/'' # (''data'' @ CHR ''/'' # (e @ CHR ''/'' # (d @ CHR ''/'' # l))))"
    by simp
  have "split_on ?P (''Archives/edgar/data/'' @ e @ ''/'' @ d @ ''/'' @ l) =
      [''Archives'', ''edgar'', ''data'', e, d, l]"
    by (simp only: eq split_on_append [OF lit(1) sl] split_on_append [OF lit(2) sl]
        split_on_append [OF lit(3) sl] split_on_append [OF ne sl] split_on_append [OF nd sl]
        split_on_single [OF nl])
  then show ?thesis
    by (simp only: parse_path_def path_state_plain [OF plain_literals(1)]
        path_state_plain [OF plain_literals(2)] path_state_plain [OF plain_literals(3)]
        path_state_plain [OF assms(1)] path_state_plain [OF assms(2)] path_state_plain [OF assms(3)]
        path_state.simps(1) append.simps)
qed

lemma new_URL_archive:
  assumes "plain_segment e" and "plain_segment d" and "plain_segment l" and "32 < code (last l)"
  shows "new_URL (archive_url e d l) =
           Some \<lparr>url_scheme = ''https'', url_username = [], url_password = [],
                 url_host = Some ''www.sec.gov'', url_port = None,
                 url_path = Segments [''Archives'', ''edgar'', ''data'', e, d, l],
                 url_query = None, url_fragment = None\<rparr>"
proof -
  define p where "p = ''Archives/edgar/data/'' @ e @ ''/'' @ d @ ''/'' @ l"
  have nonempty: "l \<noteq> []" using assms(3) by (auto simp: plain_segment_def)
  have chars: "list_all url_text e" "list_all url_text d" "list_all url_text l"
    using assms(1-3) by (auto simp: plain_segment_def list_all_iff segment_char_url_text)
  have 1: "list_all url_text p" using chars by (simp add: url_text_def p_def)
  have 2: "p = [] \<or> 32 < code (last p)" using assms(4) nonempty by (simp add: p_def)
  have eq: "archive_url e d l = ''https://www.sec.gov/'' @ p" by (simp add: archive_url_def p_def)
  have "parse_path ''https'' p = Segments [''Archives'', ''edgar'', ''data'', e, d, l]"
    unfolding p_def by (rule parse_path_archive [OF assms(1-3)])
  then show ?thesis
    by (simp only: eq new_URL_https_www_sec_gov [OF 1 2])
qed

lemma str_includes_appendI: "str_includes b t \<Longrightarrow> str_includes (a @ b) t"
proof (induction a)
  case Nil
  then show ?case by simp
next
  case (Cons c a)
  then show ?case by simp
qed

lemma toLowerCase_append: "toLowerCase (a @ b) = toLowerCase a @ toLowerCase b"
  by (simp add: toLowerCase_def)

lemma toLowerCase_no_slash:
  assumes "list_all segment_char s"
  shows "\<forall>c\<in>set (toLowerCase s). \<not> c = CHR ''/''"
proof -
  have "CHR ''/'' \<notin> set s" using assms by (auto simp: list_all_iff segment_char_def)
  then show ?thesis by (auto simp: set_toLowerCase to_lower_slash)
qed

lemma last_segment_archive:
  assumes "\<forall>c\<in>set e. \<not> c = CHR ''/''" and "\<forall>c\<in>set d. \<not> c = CHR ''/''"
    and "\<forall>c\<in>set l. \<not> c = CHR ''/''" and "l \<noteq> []"
  shows "last_segment (''/archives/edgar/data/'' @ e @ ''/'' @ d @ ''/'' @ l) = l"
proof -
  let ?P = "\<lambda>c. c = CHR ''/''"
  have sl: "?P (CHR ''/'')" by simp
  have lit: "\<forall>c\<in>set ''''. \<not> ?P c" "\<forall>c\<in>set ''archives''. \<not> ?P c" "\<forall>c\<in>set ''edgar''. \<not> ?P c"
    "\<forall>c\<in>set ''data''. \<not> ?P c"
    by simp_all
  have eq: "''/archives/edgar/data/'' @ e @ ''/'' @ d @ ''/'' @ l =
      '''' @ CHR ''/'' # (''archives'' @ CHR ''/'' # (''edgar'' @ CHR ''/'' # (''data'' @ CHR ''/'' #
        (e @ CHR ''/'' # (d @ CHR ''/'' # l)))))"
    by simp
  have "split_on ?P (''/archives/edgar/data/'' @ e @ ''/'' @ d @ ''/'' @ l) =
      ['''', ''archives'', ''edgar'', ''data'', e, d, l]"
    by (simp only: eq split_on_append [OF lit(1) sl] split_on_append [OF lit(2) sl]
        split_on_append [OF lit(3) sl] split_on_append [OF lit(4) sl]
        split_on_append [OF assms(1) sl] split_on_append [OF assms(2) sl]
        split_on_single [OF assms(3)])
  then show ?thesis using assms(4) by (simp add: last_segment_def)
qed

lemma index_name_facts:
  "str_includes (r @ ''-index.html'') ''.''"
  "r @ ''-index.html'' \<noteq> ''index.html''"
  "r @ ''-index.html'' \<noteq> ''index.htm''"
proof -
  have "str_includes ''-index.html'' ''.''" by (simp add: startsWith_def)
  then show "str_includes (r @ ''-index.html'') ''.''" by (rule str_includes_appendI)
  have "length (r @ ''-index.html'') \<noteq> length ''index.html''" by simp
  then show "r @ ''-index.html'' \<noteq> ''index.html''" by (metis (no_types))
  have "length (r @ ''-index.html'') \<noteq> length ''index.htm''" by simp
  then show "r @ ''-index.html'' \<noteq> ''index.htm''" by (metis (no_types))
qed

lemma index_name_plain:
  assumes "list_all segment_char r"
  shows "plain_segment (r @ ''-index.html'')"
proof -
  have "list_all segment_char ''-index.html''"
    using segment_char_letters by simp
  then have "list_all segment_char (r @ ''-index.html'')" using assms by simp
  moreover have "CHR ''-'' \<in> set (r @ ''-index.html'')" by simp
  ultimately show ?thesis unfolding plain_segment_def by (intro conjI bexI [of _ "CHR ''-''"]) simp_all
qed

lemma sec_gov_test_www: "sec_gov_test ''www.sec.gov''"
  by code_simp

lemma archive_index_url:
  assumes "plain_segment e" and "plain_segment d" and "list_all segment_char r"
  shows "isUsableSecFilingUrl (Some (archive_url e d (r @ ''-index.html'')))"
    and "toIxViewerUrl (Some (archive_url e d (r @ ''-index.html''))) =
           ''https://www.sec.gov/ix?doc='' @ archive_path e d (r @ ''-index.html'')"
    and "canonicalizeSecUrl (Some (archive_url e d (r @ ''-index.html''))) a =
           archive_url e d (r @ ''-index.html'')"
proof -
  let ?l = "r @ ''-index.html''"
  let ?url = "archive_url e d ?l"
  define u where "u = \<lparr>url_scheme = ''https'', url_username = [], url_password = [],
                 url_host = Some ''www.sec.gov'', url_port = None,
                 url_path = Segments [''Archives'', ''edgar'', ''data'', e, d, ?l],
                 url_query = None, url_fragment = None\<rparr>"
  have pl: "plain_segment ?l" using assms(3) by (rule index_name_plain)
  have "32 < code (last ?l)" by (simp add: code_def)
  then have "new_URL ?url = Some u"
    unfolding u_def by (rule new_URL_archive [OF assms(1,2) pl])
  then have parsed: "URL_new ?url = Inr u" by (simp add: URL_new_def)
  have ne: "?url \<noteq> []" and "ascii_word_char (hd ?url)" and "ascii_word_char (last ?url)"
    by (simp_all add: archive_url_def ascii_word_char_def ascii_space_def code_def)
  then have tr: "trim ?url = ?url" by (rule trim_id)
  have host: "sec_gov_test (hostname u)" by (simp add: u_def hostname_def sec_gov_test_www)
  have path: "pathname u = archive_path e d ?l"
    by (simp add: u_def pathname_def archive_path_def)
  have hr: "href u = ?url"
    by (simp add: u_def href_def pathname_def archive_url_def)
  have low: "toLowerCase (archive_path e d ?l) =
      ''/archives/edgar/data/'' @ toLowerCase e @ ''/'' @ toLowerCase d @ ''/'' @ (toLowerCase r @ ''-index.html'')"
    by (simp add: archive_path_def toLowerCase_def to_lower_def)
  have p1: "archive_path e d ?l \<noteq> ''/''" "archive_path e d ?l \<noteq> []"
    by (simp_all add: archive_path_def)
  have p2: "toLowerCase (archive_path e d ?l) \<noteq> ''/ix''"
    by (simp add: low)
  have p3: "str_includes (toLowerCase (archive_path e d ?l)) ''/archives/''"
    by (simp add: low startsWith_def)
  have ns: "\<forall>c\<in>set (toLowerCase e). \<not> c = CHR ''/''" "\<forall>c\<in>set (toLowerCase d). \<not> c = CHR ''/''"
    "\<forall>c\<in>set (toLowerCase r @ ''-index.html''). \<not> c = CHR ''/''"
    using assms toLowerCase_no_slash [of e] toLowerCase_no_slash [of d] toLowerCase_no_slash [of r]
    by (simp_all add: plain_segment_def)
  have p4: "last_segment (toLowerCase (archive_path e d ?l)) = toLowerCase r @ ''-index.html''"
    unfolding low by (rule last_segment_archive [OF ns]) simp
  note facts = parsed host path p1 p2 p3 p4 index_name_facts hr ne
  show "isUsableSecFilingUrl (Some ?url)"
    by (simp add: isUsableSecFilingUrl_def isUsableSecFilingUrl_try_def str_or_empty_def tr Let_def facts)
  show "toIxViewerUrl (Some ?url) = ''https://www.sec.gov/ix?doc='' @ archive_path e d ?l"
    by (simp add: toIxViewerUrl_def toIxViewerUrl_try_def str_or_empty_def tr Let_def facts)
  show "canonicalizeSecUrl (Some ?url) a = ?url"
    by (simp add: canonicalizeSecUrl_def canonicalizeSecUrl_try_def str_or_empty_def tr Let_def facts)
qed

lemma buildEdgarIndexUrl_shape:
  assumes "buildEdgarIndexUrl c acc \<noteq> []"
  shows "buildEdgarIndexUrl c acc =
           archive_url (normalizeCik c) (normalizeAccessionDigits acc)
             (trim (str_or_empty acc) @ ''-index.html'')"
    and "normalizeCik c \<noteq> []" and "normalizeAccessionDigits acc \<noteq> []"
  using assms by (auto simp: buildEdgarIndexUrl_def Let_def archive_url_def split: if_splits)

section \<open>The synthesized fallback URL\<close>

text \<open>
  Claim C9, as stated, fails: the raw accession text is written into the URL as it is, so
  a \<^verbatim>\<open>#\<close> or \<^verbatim>\<open>?\<close> in it ends the path before \<^verbatim>\<open>-index.html\<close>, and the last path
  segment is left without an extension.
\<close>

theorem fallback_not_usable_with_fragment:
  "buildEdgarIndexUrl (Some ''0001234567'') (Some ''0001234567-24-000123#'') =
     ''https://www.sec.gov/Archives/edgar/data/1234567/000123456724000123/0001234567-24-000123#-index.html'' \<and>
   \<not> isUsableSecFilingUrl (Some (buildEdgarIndexUrl (Some ''0001234567'') (Some ''0001234567-24-000123#'')))"
  by code_simp

text \<open>
  Claim C9, amended: for every cik and every accession whose trimmed text is made of
  characters that a URL path segment keeps as they are (so none of \<^verbatim>\<open>/ \ ? # %\<close>, no
  white space, control or non-ASCII character), whenever \<^verbatim>\<open>buildEdgarIndexUrl\<close> returns
  a non-empty string, that string satisfies \<^verbatim>\<open>isUsableSecFilingUrl\<close>.
\<close>

theorem fallback_usable_for_segment_accession:
  assumes "list_all segment_char (trim (str_or_empty acc))"
    and "buildEdgarIndexUrl c acc \<noteq> []"
  shows "isUsableSecFilingUrl (Some (buildEdgarIndexUrl c acc))"
proof -
  have e: "plain_segment (normalizeCik c)"
    using buildEdgarIndexUrl_shape(2) [OF assms(2)] by (rule normalizeCik_plain)
  have "list_all is_digit (normalizeAccessionDigits acc)"
    by (simp add: normalizeAccessionDigits_def list_all_iff)
  then have d: "plain_segment (normalizeAccessionDigits acc)"
    using buildEdgarIndexUrl_shape(3) [OF assms(2)] by (rule digits_plain)
  show ?thesis
    unfolding buildEdgarIndexUrl_shape(1) [OF assms(2)]
    by (rule archive_index_url(1) [OF e d assms(1)])
qed
theorem fallback_usable_for_segment_accession_witness:
  "list_all segment_char (trim (str_or_empty (Some ''0001234567-24-000123''))) \<and>
   buildEdgarIndexUrl (Some ''0001234567'') (Some ''0001234567-24-000123'') \<noteq> [] \<and>
   isUsableSecFilingUrl (Some (buildEdgarIndexUrl (Some ''0001234567'') (Some ''0001234567-24-000123'')))"
proof -
  have t: "trim (str_or_empty (Some ''0001234567-24-000123'')) = ''0001234567-24-000123''"
    by code_simp
  have 1: "list_all segment_char (trim (str_or_empty (Some ''0001234567-24-000123'')))"
    unfolding t
    by (simp add: segment_char_def path_set_def query_set_def c0_control_set_def code_def)
  have 2: "buildEdgarIndexUrl (Some ''0001234567'') (Some ''0001234567-24-000123'') \<noteq> []"
    by code_simp
  show ?thesis
    using 1 2 fallback_usable_for_segment_accession [OF 1 2] by simp
qed

section \<open>Fallback completeness of \<^verbatim>\<open>resolveLinks\<close>\<close>

lemma root_path_facts:
  "toLowerCase ''/'' \<noteq> ''/ix''" "toLowerCase [] \<noteq> ''/ix''"
  "\<not> str_includes (toLowerCase ''/'') ''/archives/''" "\<not> str_includes (toLowerCase []) ''/archives/''"
  by (simp_all add: toLowerCase_def to_lower_def startsWith_def)

lemma unusable_canonical:
  assumes "\<not> isUsableSecFilingUrl f"
  shows "canonicalizeSecUrl f a = [] \<or>
         canonicalizeSecUrl f a = buildEdgarIndexUrl (cik a) (accession_number a)"
proof (cases "trim (str_or_empty f) = []")
  case True
  then show ?thesis by (simp add: canonicalizeSecUrl_def)
next
  case False
  show ?thesis
  proof (cases "URL_new (trim (str_or_empty f))")
    case (Inl e)
    then show ?thesis by (simp add: canonicalizeSecUrl_def canonicalizeSecUrl_try_def Let_def)
  next
    case (Inr u)
    show ?thesis
    proof (cases "pathname u = ''/'' \<or> pathname u = []")
      case True
      then show ?thesis
        using Inr root_path_facts
        by (auto simp: canonicalizeSecUrl_def canonicalizeSecUrl_try_def Let_def)
    next
      case root: False
      have "isUsableSecFilingUrl_try (trim (str_or_empty f)) = Inr False"
        using assms False Inr
        by (auto simp: isUsableSecFilingUrl_def Let_def isUsableSecFilingUrl_try_def
            split: sum.splits)
      then show ?thesis
        using False Inr root
        by (simp add: isUsableSecFilingUrl_try_def canonicalizeSecUrl_def canonicalizeSecUrl_try_def
            Let_def del: str_includes.simps split: if_splits) blast+
    qed
  qed
qed

lemma isUsable_empty: "\<not> isUsableSecFilingUrl (Some [])"
  by code_simp

lemma toIx_hash: "toIxViewerUrl (Some ''#'') = []"
  by code_simp

lemma best_is_fallback:
  assumes "c1 = [] \<or> c1 = b" and "c2 = [] \<or> c2 = b" and "c3 = [] \<or> c3 = b"
    and "b \<noteq> [] \<longrightarrow> isUsableSecFilingUrl (Some b)"
  shows "or_else (or_else (case find (\<lambda>item. isUsableSecFilingUrl (Some item)) [c1, c2, c3] of
                             None \<Rightarrow> [] | Some item \<Rightarrow> item) b) ''#'' = (if b = [] then ''#'' else b)"
  using assms isUsable_empty by (auto simp: or_else_def)

lemma dash_digit_chars:
  assumes "is_digit c \<or> c = CHR ''-''"
  shows "segment_char c" and "ascii_word_char c"
proof -
  have "list_all segment_char ''0123456789-''" "list_all ascii_word_char ''0123456789-''"
    by (simp_all add: segment_char_def path_set_def query_set_def c0_control_set_def code_def
        ascii_word_char_def ascii_space_def)
  moreover have "c \<in> set ''0123456789-''" using assms by (auto simp: is_digit_def)
  ultimately show "segment_char c" and "ascii_word_char c"
    unfolding list_all_iff by blast+
qed

lemma valid_accession_trim:
  assumes "valid_accession r"
  shows "trim r = r" and "list_all segment_char r" and "r \<noteq> []" and "filter is_digit r \<noteq> []"
proof -
  have all: "\<forall>c\<in>set r. is_digit c \<or> c = CHR ''-''"
    using assms by (simp add: valid_accession_def list_all_iff)
  show ne: "r \<noteq> []" using assms by (auto simp: valid_accession_def)
  then have "hd r \<in> set r" "last r \<in> set r" by simp_all
  then have "ascii_word_char (hd r)" "ascii_word_char (last r)"
    using all dash_digit_chars(2) by blast+
  then show "trim r = r" using ne by (intro trim_id)
  show "list_all segment_char r" using all dash_digit_chars(1) by (auto simp: list_all_iff)
  show "filter is_digit r \<noteq> []"
    using assms by (auto simp: valid_accession_def list_ex_iff filter_empty_conv)
qed

text \<open>
  Claim C2, as stated, fails: with no usable candidate the winning URL is the synthesized
  index URL, but \<^verbatim>\<open>secLink\<close> is its inline-viewer form (\<^verbatim>\<open>viewer || best\<close>), since
  \<^verbatim>\<open>toIxViewerUrl\<close> takes the last segment \<^verbatim>\<open>...-index.html\<close> for a document.
\<close>

theorem resolveLinks_fallback_is_not_the_index_url:
  "\<not> isUsableSecFilingUrl (primary_document_url sample_alert) \<and>
   \<not> isUsableSecFilingUrl (sec_filing_url sample_alert) \<and>
   \<not> isUsableSecFilingUrl (sec_index_url sample_alert) \<and>
   cik sample_alert = Some ''0001234567'' \<and>
   accession_number sample_alert = Some ''0001234567-24-000123'' \<and>
   buildEdgarIndexUrl (cik sample_alert) (accession_number sample_alert) =
     ''https://www.sec.gov/Archives/edgar/data/1234567/000123456724000123/0001234567-24-000123-index.html'' \<and>
   secLink (resolveLinks sample_alert) =
     ''https://www.sec.gov/ix?doc=/Archives/edgar/data/1234567/000123456724000123/0001234567-24-000123-index.html'' \<and>
   secLink (resolveLinks sample_alert) \<noteq>
     buildEdgarIndexUrl (cik sample_alert) (accession_number sample_alert)"
  by code_simp

text \<open>
  Claim C2, amended: for every record whose three candidate URL fields are all empty or
  not usable, and whose cik has a digit and whose accession number is dash-delimited
  digits, \<^verbatim>\<open>resolveLinks\<close> returns as \<^verbatim>\<open>secLink\<close> the inline-viewer form of the
  synthesized index URL,
  \<^verbatim>\<open>https://www.sec.gov/ix?doc=/Archives/edgar/data/{entityId}/{accessionDigits}/{accessionRaw}-index.html\<close>;
  when cik and accession number are both empty, it returns the sentinel \<^verbatim>\<open>#\<close>.
\<close>

theorem resolveLinks_fallback_viewer:
  assumes "\<not> isUsableSecFilingUrl (primary_document_url a)"
    and "\<not> isUsableSecFilingUrl (sec_filing_url a)"
    and "\<not> isUsableSecFilingUrl (sec_index_url a)"
  shows "(list_ex is_digit (str_or_empty (cik a)) \<and>
          valid_accession (str_or_empty (accession_number a)) \<longrightarrow>
            secLink (resolveLinks a) =
              ''https://www.sec.gov/ix?doc=/Archives/edgar/data/'' @ normalizeCik (cik a) @ ''/'' @
              normalizeAccessionDigits (accession_number a) @ ''/'' @
              str_or_empty (accession_number a) @ ''-index.html'') \<and>
         (str_or_empty (cik a) = [] \<and> str_or_empty (accession_number a) = [] \<longrightarrow>
            secLink (resolveLinks a) = ''#'')"
proof -
  define b where "b = buildEdgarIndexUrl (cik a) (accession_number a)"
  note cands = unusable_canonical [OF assms(1), of a, folded b_def]
    unusable_canonical [OF assms(2), of a, folded b_def]
    unusable_canonical [OF assms(3), of a, folded b_def]
  have sec: "b \<noteq> [] \<longrightarrow> isUsableSecFilingUrl (Some b) \<Longrightarrow>
      secLink (resolveLinks a) =
        or_else (toIxViewerUrl (Some (if b = [] then ''#'' else b))) (if b = [] then ''#'' else b)"
    using best_is_fallback [OF cands]
    by (simp add: resolveLinks_def Let_def b_def [symmetric])
  have valid: "secLink (resolveLinks a) =
      ''https://www.sec.gov/ix?doc=/Archives/edgar/data/'' @ normalizeCik (cik a) @ ''/'' @
      normalizeAccessionDigits (accession_number a) @ ''/'' @
      str_or_empty (accession_number a) @ ''-index.html''"
    if c: "list_ex is_digit (str_or_empty (cik a))"
      and r: "valid_accession (str_or_empty (accession_number a))"
  proof -
    note v = valid_accession_trim [OF r]
    have e: "normalizeCik (cik a) \<noteq> []"
      using c by (intro normalizeCik_nonempty) (auto simp: list_ex_iff filter_empty_conv)
    have d: "normalizeAccessionDigits (accession_number a) \<noteq> []"
      using v(4) by (simp add: normalizeAccessionDigits_def)
    have b: "b = archive_url (normalizeCik (cik a)) (normalizeAccessionDigits (accession_number a))
                   (str_or_empty (accession_number a) @ ''-index.html'')"
      using e d v(3) by (simp add: b_def buildEdgarIndexUrl_def Let_def v(1) archive_url_def)
    have pe: "plain_segment (normalizeCik (cik a))" using e by (rule normalizeCik_plain)
    have "list_all is_digit (normalizeAccessionDigits (accession_number a))"
      by (simp add: normalizeAccessionDigits_def list_all_iff)
    then have pd: "plain_segment (normalizeAccessionDigits (accession_number a))"
      using d by (rule digits_plain)
    have bne: "b \<noteq> []" by (simp add: b archive_url_def)
    have us: "isUsableSecFilingUrl (Some b)"
      unfolding b by (rule archive_index_url(1) [OF pe pd v(2)])
    have ix: "toIxViewerUrl (Some b) = ''https://www.sec.gov/ix?doc='' @
        archive_path (normalizeCik (cik a)) (normalizeAccessionDigits (accession_number a))
          (str_or_empty (accession_number a) @ ''-index.html'')"
      unfolding b by (rule archive_index_url(2) [OF pe pd v(2)])
    show ?thesis
      using sec us bne by (simp add: ix or_else_def archive_path_def)
  qed
  have empty: "secLink (resolveLinks a) = ''#''"
    if "str_or_empty (cik a) = []" and "str_or_empty (accession_number a) = []"
  proof -
    have "b = []" using that by (simp add: b_def buildEdgarIndexUrl_def normalizeCik_def Let_def)
    then show ?thesis using sec by (simp add: toIx_hash or_else_def)
  qed
  show ?thesis using valid empty by blast
qed
theorem resolveLinks_fallback_viewer_witness:
  "\<not> isUsableSecFilingUrl (primary_document_url sample_alert) \<and>
   \<not> isUsableSecFilingUrl (sec_filing_url sample_alert) \<and>
   \<not> isUsableSecFilingUrl (sec_index_url sample_alert) \<and>
   list_ex is_digit (str_or_empty (cik sample_alert)) \<and>
   valid_accession (str_or_empty (accession_number sample_alert)) \<and>
   secLink (resolveLinks sample_alert) =
     ''https://www.sec.gov/ix?doc=/Archives/edgar/data/1234567/000123456724000123/0001234567-24-000123-index.html'' \<and>
   str_or_empty (cik (sample_alert\<lparr>cik := None, accession_number := Some []\<rparr>)) = [] \<and>
   str_or_empty (accession_number (sample_alert\<lparr>cik := None, accession_number := Some []\<rparr>)) = [] \<and>
   secLink (resolveLinks (sample_alert\<lparr>cik := None, accession_number := Some []\<rparr>)) = ''#''"
proof -
  have u: "\<not> isUsableSecFilingUrl None" by code_simp
  have f: "primary_document_url sample_alert = None" "sec_filing_url sample_alert = None"
    "sec_index_url sample_alert = None" "cik sample_alert = Some ''0001234567''"
    "accession_number sample_alert = Some ''0001234567-24-000123''"
    by (simp_all add: sample_alert_def)
  have c: "list_ex is_digit (str_or_empty (cik sample_alert))"
    by (simp add: f str_or_empty_def is_digit_def)
  have r: "valid_accession (str_or_empty (accession_number sample_alert))"
    by (simp add: f str_or_empty_def valid_accession_def is_digit_def)
  have n: "normalizeCik (Some ''0001234567'') = ''1234567''"
    "normalizeAccessionDigits (Some ''0001234567-24-000123'') = ''000123456724000123''"
    by code_simp+
  have 1: "secLink (resolveLinks sample_alert) =
     ''https://www.sec.gov/ix?doc=/Archives/edgar/data/1234567/000123456724000123/0001234567-24-000123-index.html''"
    using resolveLinks_fallback_viewer [of sample_alert] u c r
    by (simp add: f n str_or_empty_def)
  have 2: "secLink (resolveLinks (sample_alert\<lparr>cik := None, accession_number := Some []\<rparr>)) = ''#''"
    using resolveLinks_fallback_viewer [of "sample_alert\<lparr>cik := None, accession_number := Some []\<rparr>"] u
    by (simp add: f str_or_empty_def)
  show ?thesis using u c r 1 2 by (simp add: f str_or_empty_def)
qed

section \<open>Domain restriction\<close>

text \<open>
  What the host test guarantees: a non-empty result of \<^verbatim>\<open>canonicalizeSecUrl\<close> comes from
  a URL that parsed and whose hostname ends with \<^verbatim>\<open>sec.gov\<close>, in any letter case.
\<close>

lemma canonicalize_nonempty_host:
  assumes "canonicalizeSecUrl url a \<noteq> []"
  shows "\<exists>u. new_URL (trim (str_or_empty url)) = Some u \<and> sec_gov_test (hostname u)"
  using assms
  by (auto simp: canonicalizeSecUrl_def canonicalizeSecUrl_try_def URL_new_def Let_def
      split: if_splits option.splits)

lemma canonicalize_domain_examples:
  "canonicalizeSecUrl (Some ''https://sec.gov.evil.example/Archives/x.htm'') a = [] \<and>
   canonicalizeSecUrl (Some ''https://www.sec.gov/Archives/edgar/data/1/2/x.htm'') a =
     ''https://www.sec.gov/Archives/edgar/data/1/2/x.htm''"
  by code_simp

text \<open>
  Claim C1 (every host that is neither \<^verbatim>\<open>sec.gov\<close> nor a subdomain of it is rejected):
  the code breaks it. The test \<^verbatim>\<open>/sec\.gov$/i\<close> has no anchor or dot on its left, so the
  host \<^verbatim>\<open>evilsec.gov\<close>, which is neither, passes, and its URL is returned and usable.
\<close>

theorem canonicalize_accepts_evilsec_gov:
  "map_option hostname (new_URL ''https://evilsec.gov/Archives/edgar/data/1/2/x.htm'') = Some ''evilsec.gov'' \<and>
   ''evilsec.gov'' \<noteq> ''sec.gov'' \<and> \<not> endsWith ''evilsec.gov'' ''.sec.gov'' \<and>
   canonicalizeSecUrl (Some ''https://evilsec.gov/Archives/edgar/data/1/2/x.htm'') a =
     ''https://evilsec.gov/Archives/edgar/data/1/2/x.htm'' \<and>
   isUsableSecFilingUrl (Some ''https://evilsec.gov/Archives/edgar/data/1/2/x.htm'') = True"
  by code_simp

section \<open>Totality of canonicalization\<close>

text \<open>
  Claim C5: for every string input and every record, \<^verbatim>\<open>canonicalizeSecUrl\<close> and
  \<^verbatim>\<open>isUsableSecFilingUrl\<close> return a string and a boolean and never raise: the one
  exception their \<^verbatim>\<open>try\<close> blocks can meet is the \<^verbatim>\<open>TypeError\<close> of the \<^verbatim>\<open>URL\<close>
  constructor, and it is caught; an input that is empty or does not parse, and one that
  parses to another scheme (\<^verbatim>\<open>javascript:\<close>), gives the empty string and \<^verbatim>\<open>false\<close>.
\<close>

theorem canonicalize_and_isUsable_never_raise:
  "(trim (str_or_empty url) = [] \<or> URL_new (trim (str_or_empty url)) = Inl TypeError \<longrightarrow>
      canonicalizeSecUrl url a = [] \<and> isUsableSecFilingUrl url = False) \<and>
   (canonicalizeSecUrl_try v a = Inl e \<longrightarrow> URL_new v = Inl e) \<and>
   (isUsableSecFilingUrl_try v = Inl e \<longrightarrow> URL_new v = Inl e) \<and>
   canonicalizeSecUrl None a = [] \<and> isUsableSecFilingUrl None = False \<and>
   canonicalizeSecUrl (Some '''') a = [] \<and> isUsableSecFilingUrl (Some '''') = False \<and>
   canonicalizeSecUrl (Some ''not a url'') a = [] \<and> isUsableSecFilingUrl (Some ''not a url'') = False \<and>
   canonicalizeSecUrl (Some ''javascript:alert(1)'') a = [] \<and>
   isUsableSecFilingUrl (Some ''javascript:alert(1)'') = False"
proof -
  have 1: "trim (str_or_empty url) = [] \<or> URL_new (trim (str_or_empty url)) = Inl TypeError \<longrightarrow>
      canonicalizeSecUrl url a = [] \<and> isUsableSecFilingUrl url = False"
    by (auto simp: canonicalizeSecUrl_def canonicalizeSecUrl_try_def isUsableSecFilingUrl_def
        isUsableSecFilingUrl_try_def Let_def)
  have 2: "canonicalizeSecUrl_try v a = Inl e \<longrightarrow> URL_new v = Inl e"
    by (auto simp: canonicalizeSecUrl_try_def Let_def split: sum.splits if_splits)
  have 3: "isUsableSecFilingUrl_try v = Inl e \<longrightarrow> URL_new v = Inl e"
    by (auto simp: isUsableSecFilingUrl_try_def Let_def split: sum.splits if_splits)
  have t: "trim [] = []" "trim ''not a url'' = ''not a url''" "trim ''javascript:alert(1)'' = ''javascript:alert(1)''"
    by code_simp+
  have n: "new_URL ''not a url'' = None" by code_simp
  have j: "map_option hostname (new_URL ''javascript:alert(1)'') = Some []" by code_simp
  have s: "sec_gov_test [] = False" by code_simp
  from j obtain u where u: "new_URL ''javascript:alert(1)'' = Some u" "hostname u = []" by auto
  have 4: "canonicalizeSecUrl None a = []" "isUsableSecFilingUrl None = False"
    "canonicalizeSecUrl (Some '''') a = []" "isUsableSecFilingUrl (Some '''') = False"
    by (simp_all add: canonicalizeSecUrl_def isUsableSecFilingUrl_def str_or_empty_def t Let_def)
  have 5: "canonicalizeSecUrl (Some ''not a url'') a = []" "isUsableSecFilingUrl (Some ''not a url'') = False"
    by (simp_all add: canonicalizeSecUrl_def isUsableSecFilingUrl_def str_or_empty_def t
        canonicalizeSecUrl_try_def isUsableSecFilingUrl_try_def URL_new_def n Let_def)
  have 6: "canonicalizeSecUrl (Some ''javascript:alert(1)'') a = []"
    "isUsableSecFilingUrl (Some ''javascript:alert(1)'') = False"
    by (simp_all add: canonicalizeSecUrl_def isUsableSecFilingUrl_def str_or_empty_def t
        canonicalizeSecUrl_try_def isUsableSecFilingUrl_try_def URL_new_def u s Let_def)
  show ?thesis using 1 2 3 4 5 6 by blast
qed

theorem canonicalize_and_isUsable_never_raise_witness:
  "URL_new (trim (str_or_empty (Some ''https://'' ))) = Inl TypeError \<and>
   canonicalizeSecUrl (Some ''https://'') sample_alert = [] \<and>
   isUsableSecFilingUrl (Some ''https://'') = False"
proof -
  have "URL_new (trim (str_or_empty (Some ''https://''))) = Inl TypeError" by code_simp
  then show ?thesis
    using canonicalize_and_isUsable_never_raise [of "Some ''https://''" sample_alert] by simp
qed

section \<open>Sorting by timestamp\<close>

text \<open>
  What the sort guarantees. On every list it is stable: the records with one and the
  same timestamp, and the records whose timestamp does not parse, keep their relative
  order. On a list whose timestamps all parse (or are absent, which counts as the epoch)
  the comparator is consistent and the output is in descending order of timestamp.
\<close>

lemma insert_from_end_filter:
  "filter (\<lambda>a. alert_time g a = k) (insert_from_end (by_time_desc g) x ys) =
     (if alert_time g x = k then x # filter (\<lambda>a. alert_time g a = k) ys
      else filter (\<lambda>a. alert_time g a = k) ys)"
proof (induction ys)
  case Nil
  show ?case by simp
next
  case (Cons y ys)
  show ?case
  proof (cases "0 < (case by_time_desc g y x of None \<Rightarrow> 0 | Some v \<Rightarrow> v)")
    case True
    then have "alert_time g y \<noteq> alert_time g x"
      by (auto simp: by_time_desc_def split: option.splits)
    then show ?thesis using True Cons by auto
  next
    case False
    then show ?thesis by simp
  qed
qed

lemma foldl_insert_filter:
  "filter (\<lambda>a. alert_time g a = k)
     (foldl (\<lambda>sorted x. insert_from_end (by_time_desc g) x sorted) acc xs) =
   rev (filter (\<lambda>a. alert_time g a = k) xs) @ filter (\<lambda>a. alert_time g a = k) acc"
  by (induction xs arbitrary: acc) (simp_all add: insert_from_end_filter)

lemma Array_sort_stable:
  "filter (\<lambda>a. alert_time g a = k) (Array_sort (by_time_desc g) xs) =
     filter (\<lambda>a. alert_time g a = k) xs"
  by (simp add: Array_sort_def rev_filter [symmetric] foldl_insert_filter)

lemma insert_from_end_insort:
  assumes "\<forall>a\<in>set (x # ys). alert_time g a \<noteq> None"
  shows "insert_from_end (by_time_desc g) x ys = insort_key (time_key g) x ys"
  using assms
proof (induction ys)
  case Nil
  show ?case by simp
next
  case (Cons y ys)
  then obtain s t where "alert_time g y = Some s" "alert_time g x = Some t" by auto
  then show ?case using Cons by (auto simp: by_time_desc_def time_key_def)
qed

lemma foldl_insert_insort:
  assumes "\<forall>a\<in>set acc \<union> set xs. alert_time g a \<noteq> None"
  shows "foldl (\<lambda>sorted x. insert_from_end (by_time_desc g) x sorted) acc xs =
         foldl (\<lambda>sorted x. insort_key (time_key g) x sorted) acc xs"
  using assms
proof (induction xs arbitrary: acc)
  case Nil
  show ?case by simp
next
  case (Cons x xs)
  have 1: "insert_from_end (by_time_desc g) x acc = insort_key (time_key g) x acc"
    using Cons.prems by (intro insert_from_end_insort) auto
  have 2: "\<forall>a\<in>set (insort_key (time_key g) x acc) \<union> set xs. alert_time g a \<noteq> None"
    using Cons.prems by (auto simp: set_insort_key)
  show ?case using Cons.IH [OF 2] by (simp add: 1)
qed

lemma Array_sort_parseable:
  assumes "\<forall>a\<in>set xs. alert_time g a \<noteq> None"
  shows "Array_sort (by_time_desc g) xs = rev (sort_key (time_key g) (rev xs))"
proof -
  have "foldl (\<lambda>sorted x. insert_from_end (by_time_desc g) x sorted) [] xs =
        foldl (\<lambda>sorted x. insort_key (time_key g) x sorted) [] xs"
    using assms by (intro foldl_insert_insort) simp
  also have "\<dots> = foldr (insort_key (time_key g)) (rev xs) []"
    by (simp add: foldr_conv_foldl)
  finally show ?thesis by (simp add: Array_sort_def sort_key_def)
qed

lemma Array_sort_descending:
  assumes "\<forall>a\<in>set xs. alert_time g a \<noteq> None"
  shows "sorted (rev (map (time_key g) (Array_sort (by_time_desc g) xs)))"
  by (simp add: Array_sort_parseable [OF assms] rev_map [symmetric])

text \<open>
  Claim C3 (for every list of records the output is in descending order of timestamp):
  the code breaks it when a timestamp does not parse. \<^verbatim>\<open>a.created_at || a.updated || 0\<close>
  gives every record a timestamp when the fields are absent, but not when the text is no
  date: the comparator then returns \<^verbatim>\<open>NaN\<close>, no longer a consistent order, and the record
  with the unparseable date keeps the records on its two sides apart, an earlier record
  ahead of a later one. (\<^verbatim>\<open>fmtDate\<close> in the same file does test for \<^verbatim>\<open>NaN\<close>.)
\<close>

theorem filterAlerts_unparseable_breaks_order:
  "filterAlerts sample_getTime
     (sample_dashboard\<lparr>allAlerts :=
        [sample_alert\<lparr>created_at := Some ''2024-01-01''\<rparr>,
         sample_alert\<lparr>created_at := Some ''not a date''\<rparr>,
         sample_alert\<lparr>created_at := Some ''2024-01-03''\<rparr>]\<rparr>) =
     [sample_alert\<lparr>created_at := Some ''2024-01-01''\<rparr>,
      sample_alert\<lparr>created_at := Some ''not a date''\<rparr>,
      sample_alert\<lparr>created_at := Some ''2024-01-03''\<rparr>] \<and>
   alert_time sample_getTime (sample_alert\<lparr>created_at := Some ''2024-01-01''\<rparr>) = Some 1704067200000 \<and>
   alert_time sample_getTime (sample_alert\<lparr>created_at := Some ''not a date''\<rparr>) = None \<and>
   alert_time sample_getTime (sample_alert\<lparr>created_at := Some ''2024-01-03''\<rparr>) = Some 1704240000000"
  by code_simp

lemma filterAlerts_scenario:
  "filterAlerts sample_getTime
     (sample_dashboard\<lparr>allAlerts :=
        [sample_alert\<lparr>form_type := Some ''485APOS'', created_at := Some ''2024-01-02''\<rparr>,
         sample_alert\<lparr>form_type := Some ''S-1'', created_at := Some ''2024-01-03''\<rparr>]\<rparr>) =
     [sample_alert\<lparr>form_type := Some ''S-1'', created_at := Some ''2024-01-03''\<rparr>,
      sample_alert\<lparr>form_type := Some ''485APOS'', created_at := Some ''2024-01-02''\<rparr>]"
  by code_simp

section \<open>Refresh and the cache\<close>

text \<open>
  Claim C6: whenever a refresh fails (the status read or the records read throws), the
  cached status and the cached records are left as they were and the status line, when
  the page has one, shows an error message built from the failure; the cache changes only
  when both reads succeed, and then both fields are replaced together.
\<close>

theorem refreshAll_failure_keeps_cache:
  "(statusRead = Inl m \<or> alertsRead = Inl m \<longrightarrow>
      cachedStatus (refreshAll summary getTime first statusRead alertsRead d) = cachedStatus d \<and>
      allAlerts (refreshAll summary getTime first statusRead alertsRead d) = allAlerts d \<and>
      (statusEl d \<noteq> None \<longrightarrow>
         (\<exists>e. statusEl (refreshAll summary getTime first statusRead alertsRead d) =
                 Some (''Dashboard refresh failed: '' @ e) \<and>
              (statusRead = Inl e \<or> alertsRead = Inl e)))) \<and>
   (cachedStatus (refreshAll summary getTime first statusRead alertsRead d) \<noteq> cachedStatus d \<or>
    allAlerts (refreshAll summary getTime first statusRead alertsRead d) \<noteq> allAlerts d \<longrightarrow>
      (\<exists>status alerts. statusRead = Inr status \<and> alertsRead = Inr alerts)) \<and>
   (statusRead = Inr status \<and> alertsRead = Inr alerts \<longrightarrow>
      cachedStatus (refreshAll summary getTime first statusRead alertsRead d) = Some status \<and>
      allAlerts (refreshAll summary getTime first statusRead alertsRead d) =
        (case alerts of None \<Rightarrow> [] | Some xs \<Rightarrow> xs))"
proof -
  have keep: "cachedStatus (applyFiltersAndRender getTime x) = cachedStatus x"
    "allAlerts (applyFiltersAndRender getTime x) = allAlerts x" for x :: "'a dashboard"
    by (simp_all add: applyFiltersAndRender_def renderAlerts_def Let_def)
  show ?thesis
    by (cases statusRead; cases alertsRead; cases "statusEl d")
       (auto simp: refreshAll_def Promise_all_def fetchAlerts_def set_if_present_def keep
          updateMetrics_def updateStatusLine_def Let_def split: option.splits)
qed

theorem refreshAll_failure_keeps_cache_witness:
  "cachedStatus (refreshAll (\<lambda>m s. s) sample_getTime True (Inl ''Request failed: 503'')
                   (Inr (Some [])) sample_dashboard) = Some ''old status'' \<and>
   allAlerts (refreshAll (\<lambda>m s. s) sample_getTime True (Inl ''Request failed: 503'')
                (Inr (Some [])) sample_dashboard) = [sample_alert] \<and>
   statusEl (refreshAll (\<lambda>m s. s) sample_getTime True (Inl ''Request failed: 503'')
               (Inr (Some [])) sample_dashboard) = Some ''Dashboard refresh failed: Request failed: 503'' \<and>
   cachedStatus (refreshAll (\<lambda>m s. s) sample_getTime True (Inr ''new status'')
                   (Inr (Some [])) sample_dashboard) = Some ''new status'' \<and>
   allAlerts (refreshAll (\<lambda>m s. s) sample_getTime True (Inr ''new status'')
                (Inr (Some [])) sample_dashboard) = []"
  using refreshAll_failure_keeps_cache [of "Inl ''Request failed: 503''" "''Request failed: 503''"
      "Inr (Some [])" "\<lambda>m s. s" sample_getTime True sample_dashboard]
    refreshAll_failure_keeps_cache [of "Inr ''new status''" "''x''" "Inr (Some [])" "\<lambda>m s. s"
      sample_getTime True sample_dashboard "''new status''" "Some []"]
  by (simp add: sample_dashboard_def)

section \<open>Metrics\<close>

lemma in_two: "x \<in> set [a, b] \<longleftrightarrow> x = a \<or> x = b"
  by auto

text \<open>
  Claim C8: the four Metrics values are computed from the full record set (the number of
  records, of records with \<^verbatim>\<open>is_crypto\<close>, of records whose upper-cased form type is
  \<^verbatim>\<open>485APOS\<close> or \<^verbatim>\<open>485BPOS\<close>, of records with \<^verbatim>\<open>email_sent\<close>), after a refresh they are the
  counts over the whole cache, and changing the form filter or the search query, which
  runs the filter and the rendering again, leaves all four and the cache unchanged.
\<close>

theorem metrics_reflect_full_set:
  "(metricTotalEl d \<noteq> None \<and> metricCryptoEl d \<noteq> None \<and> metricRegularEl d \<noteq> None \<and>
    metricSentEl d \<noteq> None \<longrightarrow>
      shown_metrics (updateMetrics alerts d) =
        (case metric_counts alerts of (t, c, r, s) \<Rightarrow> (Some t, Some c, Some r, Some s))) \<and>
   (statusRead = Inr status \<and> alertsRead = Inr (Some alerts) \<and>
    metricTotalEl d \<noteq> None \<and> metricCryptoEl d \<noteq> None \<and> metricRegularEl d \<noteq> None \<and>
    metricSentEl d \<noteq> None \<longrightarrow>
      shown_metrics (refreshAll summary getTime first statusRead alertsRead d) =
        (case metric_counts (allAlerts (refreshAll summary getTime first statusRead alertsRead d)) of
           (t, c, r, s) \<Rightarrow> (Some t, Some c, Some r, Some s))) \<and>
   shown_metrics (applyFiltersAndRender getTime d) = shown_metrics d \<and>
   shown_metrics (on_form_filter_change getTime f d) = shown_metrics d \<and>
   shown_metrics (on_search_input getTime q d) = shown_metrics d \<and>
   allAlerts (on_form_filter_change getTime f d) = allAlerts d \<and>
   allAlerts (on_search_input getTime q d) = allAlerts d"
proof -
  have keep: "shown_metrics (applyFiltersAndRender getTime x) = shown_metrics x"
    "allAlerts (applyFiltersAndRender getTime x) = allAlerts x" for x :: "'a dashboard"
    by (simp_all add: applyFiltersAndRender_def renderAlerts_def Let_def shown_metrics_def)
  have upd: "metricTotalEl d \<noteq> None \<and> metricCryptoEl d \<noteq> None \<and> metricRegularEl d \<noteq> None \<and>
    metricSentEl d \<noteq> None \<longrightarrow>
      shown_metrics (updateMetrics alerts d) =
        (case metric_counts alerts of (t, c, r, s) \<Rightarrow> (Some t, Some c, Some r, Some s))"
    for d :: "'a dashboard"
    by (auto simp: updateMetrics_def shown_metrics_def metric_counts_def set_if_present_def Let_def in_two)
  have ref: "statusRead = Inr status \<and> alertsRead = Inr (Some alerts) \<and>
    metricTotalEl d \<noteq> None \<and> metricCryptoEl d \<noteq> None \<and> metricRegularEl d \<noteq> None \<and>
    metricSentEl d \<noteq> None \<longrightarrow>
      shown_metrics (refreshAll summary getTime first statusRead alertsRead d) =
        (case metric_counts (allAlerts (refreshAll summary getTime first statusRead alertsRead d)) of
           (t, c, r, s) \<Rightarrow> (Some t, Some c, Some r, Some s))"
    using upd [of "updateStatusLine summary status (d\<lparr>cachedStatus := Some status, allAlerts := alerts\<rparr>)"]
    by (auto simp: refreshAll_def Promise_all_def fetchAlerts_def keep Let_def updateStatusLine_def
        updateMetrics_def)
  show ?thesis
    using upd [of d] ref
    by (simp add: keep on_form_filter_change_def on_search_input_def)
       (simp add: shown_metrics_def)
qed

theorem metrics_reflect_full_set_witness:
  "shown_metrics (updateMetrics [sample_alert, sample_alert\<lparr>form_type := Some ''s-1'', is_crypto := True\<rparr>]
                    sample_dashboard) = (Some 2, Some 1, Some 1, Some 2) \<and>
   shown_metrics (refreshAll (\<lambda>m s. s) sample_getTime True (Inr ''new status'')
                    (Inr (Some [sample_alert, sample_alert\<lparr>form_type := Some ''s-1'', is_crypto := True\<rparr>]))
                    sample_dashboard) = (Some 2, Some 1, Some 1, Some 2) \<and>
   shown_metrics (on_form_filter_change sample_getTime ''S-1'' sample_dashboard) =
     shown_metrics sample_dashboard"
proof -
  have p: "metricTotalEl sample_dashboard \<noteq> None \<and> metricCryptoEl sample_dashboard \<noteq> None \<and>
      metricRegularEl sample_dashboard \<noteq> None \<and> metricSentEl sample_dashboard \<noteq> None"
    by (simp add: sample_dashboard_def)
  have u: "toUpperCase ''485APOS'' = ''485APOS''" "toUpperCase ''s-1'' = ''S-1''"
    by (simp_all add: toUpperCase_def to_upper_def)
  have m: "metric_counts [sample_alert, sample_alert\<lparr>form_type := Some ''s-1'', is_crypto := True\<rparr>] =
      (2, 1, 1, 2)"
    by (simp add: metric_counts_def sample_alert_def str_or_empty_def u)
  have c: "allAlerts (refreshAll (\<lambda>m s. s) sample_getTime True (Inr ''new status'')
                    (Inr (Some [sample_alert, sample_alert\<lparr>form_type := Some ''s-1'', is_crypto := True\<rparr>]))
                    sample_dashboard) =
      [sample_alert, sample_alert\<lparr>form_type := Some ''s-1'', is_crypto := True\<rparr>]"
    by (simp add: refreshAll_def Promise_all_def fetchAlerts_def Let_def applyFiltersAndRender_def
        renderAlerts_def updateMetrics_def updateStatusLine_def)
  show ?thesis
    using p metrics_reflect_full_set [of sample_dashboard
        "[sample_alert, sample_alert\<lparr>form_type := Some ''s-1'', is_crypto := True\<rparr>]"
        "Inr ''new status''" "''new status''"
        "Inr (Some [sample_alert, sample_alert\<lparr>form_type := Some ''s-1'', is_crypto := True\<rparr>])"
        "\<lambda>m s. s" sample_getTime True "''S-1''" "[]"]
    by (simp add: m c)
qed

end
